theory Spec2Isabelle
  imports Complex_Main
begin

section \<open>Numbers, strings and the random source\<close>

text \<open>
  A JavaScript \<open>number\<close> held in the program state is modelled as a real, and signed
  zero is abstracted away. A quotient can leave the finite numbers (\<open>1/0\<close>, \<open>0/0\<close>),
  and HOL's \<open>x / 0 = 0\<close> is not what the program computes, so every quotient whose
  divisor comes from the state is a \<open>jsnum\<close>, with the IEEE rules for infinities and
  NaN. Positions, speeds, fades and the products with a random value are kept exact;
  the two quotients and the product from which \<open>initDrops\<close> takes its two counts are
  rounded to binary64 as the program rounds them (\<open>fl\<close> below), because there the
  rounding decides how many drops exist.
\<close>

datatype jsnum = Num real | PosInf | NegInf | NaN

definition jdiv :: "real \<Rightarrow> real \<Rightarrow> jsnum" where
  "jdiv a b =
     (if b \<noteq> 0 then Num (a / b)
      else if a > 0 then PosInf else if a < 0 then NegInf else NaN)"

fun jtimes :: "jsnum \<Rightarrow> real \<Rightarrow> jsnum" where
  "jtimes (Num a) r = Num (a * r)"
| "jtimes PosInf r = (if r > 0 then PosInf else if r < 0 then NegInf else NaN)"
| "jtimes NegInf r = (if r > 0 then NegInf else if r < 0 then PosInf else NaN)"
| "jtimes NaN r = NaN"

fun jplus :: "real \<Rightarrow> jsnum \<Rightarrow> jsnum" where
  "jplus r (Num a) = Num (r + a)"
| "jplus r v = v"

fun jminus :: "real \<Rightarrow> jsnum \<Rightarrow> jsnum" where
  "jminus r (Num a) = Num (r - a)"
| "jminus r PosInf = NegInf"
| "jminus r NegInf = PosInf"
| "jminus r NaN = NaN"

fun jle :: "jsnum \<Rightarrow> real \<Rightarrow> bool" where
  "jle (Num a) r = (a \<le> r)"
| "jle NegInf r = True"
| "jle v r = False"

fun jgt :: "jsnum \<Rightarrow> real \<Rightarrow> bool" where
  "jgt (Num a) r = (a > r)"
| "jgt PosInf r = True"
| "jgt v r = False"

fun jceil :: "jsnum \<Rightarrow> jsnum" where
  "jceil (Num a) = Num (of_int \<lceil>a\<rceil>)"
| "jceil v = v"

fun jfloor :: "jsnum \<Rightarrow> jsnum" where
  "jfloor (Num a) = Num (of_int \<lfloor>a\<rfloor>)"
| "jfloor v = v"

text \<open>\<open>Math.max(1, v)\<close>: NaN is contagious, \<open>-Infinity\<close> loses against 1.\<close>

fun jmax1 :: "jsnum \<Rightarrow> jsnum" where
  "jmax1 (Num a) = Num (max 1 a)"
| "jmax1 PosInf = PosInf"
| "jmax1 NegInf = Num 1"
| "jmax1 NaN = NaN"

text \<open>
  Rounding to binary64, to nearest with ties to even. \<open>pow2 e\<close> is \<open>2\<close> to the power
  \<open>e\<close>; \<open>binade x\<close> is the exponent of \<open>x\<close>, held at \<open>-1022\<close> for the subnormal
  numbers, so that \<open>pow2 (binade x - 52)\<close> is the distance between neighbouring doubles
  at \<open>x\<close>; \<open>fl x\<close> is the multiple of that distance nearest to \<open>x\<close>. A result of
  magnitude \<open>2 ^ 1024\<close> or more is not a finite double: \<open>jfl\<close> gives the infinity.
\<close>

definition pow2 :: "int \<Rightarrow> real" where
  "pow2 e = (if 0 \<le> e then 2 ^ nat e else 1 / 2 ^ nat (- e))"

definition round_even :: "real \<Rightarrow> int" where
  "round_even r =
     (let f = \<lfloor>r\<rfloor>
      in if r - of_int f < 1 / 2 then f
         else if 1 / 2 < r - of_int f then f + 1
         else if even f then f else f + 1)"

definition binade :: "real \<Rightarrow> int" where
  "binade x = max \<lfloor>log 2 \<bar>x\<bar>\<rfloor> (- 1022)"

definition fl :: "real \<Rightarrow> real" where
  "fl x =
     (if x = 0 then 0
      else (let u = pow2 (binade x - 52)
            in u * of_int (round_even (x / u))))"

definition jfl :: "real \<Rightarrow> jsnum" where
  "jfl x =
     (if pow2 1024 \<le> \<bar>fl x\<bar> then (if 0 < x then PosInf else NegInf) else Num (fl x))"

text \<open>The rounded quotient, and the rounded product of two numbers of the program.\<close>

fun jround :: "jsnum \<Rightarrow> jsnum" where
  "jround (Num a) = jfl a"
| "jround v = v"

fun jmul :: "jsnum \<Rightarrow> jsnum \<Rightarrow> jsnum" where
  "jmul (Num a) (Num b) = jfl (a * b)"
| "jmul (Num a) v = jtimes v a"
| "jmul v (Num b) = jtimes v b"
| "jmul NaN v = NaN"
| "jmul v NaN = NaN"
| "jmul PosInf PosInf = PosInf"
| "jmul PosInf NegInf = NegInf"
| "jmul NegInf PosInf = NegInf"
| "jmul NegInf NegInf = PosInf"

text \<open>
  A string is its list of UTF-16 code units; \<open>None\<close> stands for \<open>undefined\<close>.
  \<open>Math.random\<close> is a global source: \<open>rnd\<close> is the sequence of the values it
  returns and a counter, threaded through every operation, is the number of calls made
  so far.
\<close>

type_synonym jsstring = "nat list"
type_synonym random_source = "nat \<Rightarrow> real"

definition valid_random :: "random_source \<Rightarrow> bool" where
  "valid_random rnd = (\<forall>k. 0 \<le> rnd k \<and> rnd k < 1)"

definition rnd_zero :: random_source where
  "rnd_zero k = 0"

definition rnd_alt :: random_source where
  "rnd_alt k = (if even k then 0 else 1 / 2)"

section \<open>Configuration tables (config)\<close>

datatype CharsetKey = Cs_en | Cs_cn | Cs_bin | Cs_mix
datatype ThemeKey = Green | Blue | Purple | Red | Orange | White

record theme_colours =
  primary :: string
  secondary :: string
  tertiary :: string
  background :: string

fun THEMES :: "ThemeKey \<Rightarrow> theme_colours" where
  "THEMES Green = \<lparr>primary = ''#00ff00'', secondary = ''#00cc00'',
     tertiary = ''#008800'', background = ''#000000''\<rparr>"
| "THEMES Blue = \<lparr>primary = ''#00ffff'', secondary = ''#0088ff'',
     tertiary = ''#0044ff'', background = ''#000022''\<rparr>"
| "THEMES Purple = \<lparr>primary = ''#ff00ff'', secondary = ''#8800ff'',
     tertiary = ''#4400ff'', background = ''#110022''\<rparr>"
| "THEMES Red = \<lparr>primary = ''#ff0000'', secondary = ''#cc0000'',
     tertiary = ''#880000'', background = ''#220000''\<rparr>"
| "THEMES Orange = \<lparr>primary = ''#ffaa00'', secondary = ''#cc8800'',
     tertiary = ''#885500'', background = ''#221100''\<rparr>"
| "THEMES White = \<lparr>primary = ''#ffffff'', secondary = ''#cccccc'',
     tertiary = ''#888888'', background = ''#000000''\<rparr>"

text \<open>
  The four glyph tables. The ASCII glyphs are written as characters and turned into
  code units by \<open>of_char\<close>; the kana and ideographs of \<open>cn\<close> and \<open>mix\<close> all lie in
  the basic plane, one code unit each, and are written as numbers.
\<close>

fun CHARSETS :: "CharsetKey \<Rightarrow> jsstring" where
  "CHARSETS Cs_en =
     map of_char ''ABCDEFGHIJKLMNOPQRSTUVWXYZ0123456789!@#$%^&*()_+-=[]{}|;:,.<>?/~`''"
| "CHARSETS Cs_cn =
     [12450, 12452, 12454, 12456, 12458, 12459, 12461, 12463, 12465, 12467, 12469,
      12471, 12473, 12475, 12477, 12479, 12481, 12484, 12486, 12488, 12490, 12491,
      12492, 12493, 12494, 12495, 12498, 12501, 12504, 12507, 12510, 12511, 12512,
      12513, 12514, 12516, 12518, 12520, 12521, 12522, 12523, 12524, 12525, 12527,
      12530, 12531, 28450, 23383, 22825, 22320, 26041, 22291, 34395, 31354, 28961,
      38480, 26410, 20358, 31185, 25216, 25976, 30908, 37327, 23376]"
| "CHARSETS Cs_bin = map of_char ''01''"
| "CHARSETS Cs_mix =
     map of_char ''01'' @
     [12450, 12452, 12454, 12456, 12458, 12459, 12461, 12463, 12465, 12467,
      12469, 12471, 12473, 12475, 12477, 12479, 12481, 12484, 12486, 12488, 12490,
      12491, 12492, 12493, 12494, 12495, 12498, 12501, 12504, 12507, 12510, 12511,
      12512, 12513, 12514, 12516, 12518, 12520, 12521, 12522, 12523, 12524, 12525,
      12527, 12530, 12531, 28450, 23383, 12524, 20206, 24819, 29694, 23455, 12469,
      12452, 12496, 12540, 12467, 12540, 12489] @
     map of_char ''@#$%^&*()[]{}''"

section \<open>Utilities (utils)\<close>

text \<open>
  \<open>getRandomChar\<close>: \<open>charset[Math.floor(Math.random() * charset.length)]\<close>, the
  random value \<open>r\<close> passed in. Indexing a string outside its range gives
  \<open>undefined\<close>.
\<close>

definition getRandomChar :: "real \<Rightarrow> CharsetKey \<Rightarrow> jsstring option" where
  "getRandomChar r charsetKey =
     (let charset = CHARSETS charsetKey;
          i = \<lfloor>r * real (length charset)\<rfloor>
      in if 0 \<le> i \<and> i < int (length charset) then Some [charset ! nat i] else None)"

text \<open>
  A colour string is a palette entry, alone or followed by the two hex digits of
  \<open>Math.floor(a * 255)\<close>; the digits are kept as the factor \<open>a\<close>.
\<close>

datatype colour = Opaque string | Blend string jsnum

definition getColorByIntensity :: "jsnum \<Rightarrow> ThemeKey \<Rightarrow> colour" where
  "getColorByIntensity intensity themeKey =
     (let theme = THEMES themeKey
      in if jgt intensity 0.8 then Opaque (primary theme)
         else if jgt intensity 0.5
           then Blend (secondary theme) (jplus 0.8 (jtimes intensity 0.2))
         else if jgt intensity 0.2
           then Blend (secondary theme) (jplus 0.5 (jtimes intensity 0.3))
         else Blend (tertiary theme) (jtimes intensity 0.5))"

text \<open>The calls made on the drawing context, in order.\<close>

datatype text_align = Align_left | Align_center
datatype text_baseline = Baseline_top | Baseline_middle

datatype ctx_op =
    Set_fillStyle colour
  | Set_strokeStyle colour
  | Set_lineWidth real
  | Set_font real
  | Set_textAlign text_align
  | Set_textBaseline text_baseline
  | BeginPath
  | Arc real real real real real
  | Stroke
  | FillText "jsstring option" jsnum real

section \<open>The falling-character field (MatrixRainCore)\<close>

record Drop =
  drop_y :: real
  drop_speed :: real
  trail :: "jsstring option list"
  trailLength :: nat
  updateCounter :: int
  updateInterval :: int
  currentChar :: "jsstring option"
  xIndex :: "nat option"

record MatrixRainCore =
  drops :: "Drop list"
  fontSize :: real
  density :: real
  speed :: real
  currentCharset :: CharsetKey
  currentTheme :: ThemeKey

definition new_MatrixRainCore :: MatrixRainCore where
  "new_MatrixRainCore =
     \<lparr>drops = [], fontSize = 24, density = 100, speed = 100,
      currentCharset = Cs_mix, currentTheme = Green\<rparr>"

datatype failure = RangeError

text \<open>
  \<open>Array.from({ length: columns }, (_, i) => i)\<close>: the length is cut to an
  integer; one that is not positive or is NaN gives the empty array; an array holds at
  most \<open>2 ^ 32 - 1\<close> elements, and a greater or infinite length throws.
\<close>

fun array_from_length :: "jsnum \<Rightarrow> failure + nat list" where
  "array_from_length (Num c) =
     (if 4294967296 \<le> c then Inl RangeError else Inr [0..<nat \<lfloor>c\<rfloor>])"
| "array_from_length PosInf = Inl RangeError"
| "array_from_length NegInf = Inr []"
| "array_from_length NaN = Inr []"

text \<open>
  The number of rounds of \<open>for (let i = 0; i < actualColumns; i++)\<close>. The bound is
  an integer or not finite; under a bound above \<open>2 ^ 32 - 1\<close> the \<open>push\<close> of the body
  ends the loop by throwing once the array is full.
\<close>

fun loop_rounds :: "jsnum \<Rightarrow> failure + nat" where
  "loop_rounds (Num a) = (if 4294967295 < a then Inl RangeError else Inr (nat \<lceil>a\<rceil>))"
| "loop_rounds PosInf = Inl RangeError"
| "loop_rounds NegInf = Inr 0"
| "loop_rounds NaN = Inr 0"

text \<open>
  \<open>allIndices.splice(randomIndex, 1)[0]\<close>: the element removed and the array left;
  a start at or past the end removes nothing and yields \<open>undefined\<close>, a negative
  start counts from the end.
\<close>

definition splice1 :: "nat list \<Rightarrow> int \<Rightarrow> nat option \<times> nat list" where
  "splice1 xs i =
     (let n = int (length xs);
          s = (if i < 0 then max (n + i) 0 else min i n)
      in if s < n then (Some (xs ! nat s), take (nat s) xs @ drop (Suc (nat s)) xs)
         else (None, xs))"

fun select_indices :: "random_source \<Rightarrow> nat \<Rightarrow> nat \<Rightarrow> nat list \<Rightarrow> nat option list" where
  "select_indices rnd k 0 allIndices = []"
| "select_indices rnd k (Suc n) allIndices =
     (let randomIndex = \<lfloor>rnd k * real (length allIndices)\<rfloor>;
          (picked, rest) = splice1 allIndices randomIndex
      in picked # select_indices rnd (Suc k) n rest)"

text \<open>The \<open>map\<close> that builds one drop per selected index, four random draws each.\<close>

fun make_drops ::
  "random_source \<Rightarrow> MatrixRainCore \<Rightarrow> real \<Rightarrow> nat \<Rightarrow> nat option list \<Rightarrow> Drop list \<times> nat" where
  "make_drops rnd c canvasWidth k [] = ([], k)"
| "make_drops rnd c canvasWidth k (index # rest) =
     (let d = \<lparr>drop_y = rnd k * canvasWidth,
               drop_speed = (rnd (k + 1) * 2 + 1.5) * (speed c / 100),
               trail = [],
               trailLength = 8,
               updateCounter = 0,
               updateInterval = \<lfloor>rnd (k + 2) * 4\<rfloor> + 3,
               currentChar = getRandomChar (rnd (k + 3)) (currentCharset c),
               xIndex = index\<rparr>;
          (ds, k') = make_drops rnd c canvasWidth (k + 4) rest
      in (d # ds, k'))"

definition random_chars :: "random_source \<Rightarrow> nat \<Rightarrow> nat \<Rightarrow> CharsetKey \<Rightarrow> jsstring option list" where
  "random_chars rnd k n charsetKey = map (\<lambda>i. getRandomChar (rnd (k + i)) charsetKey) [0..<n]"

text \<open>The pre-fill loop: \<open>trailLength\<close> glyphs pushed onto each drop's trail.\<close>

fun prefill_trails ::
  "random_source \<Rightarrow> CharsetKey \<Rightarrow> nat \<Rightarrow> Drop list \<Rightarrow> Drop list \<times> nat" where
  "prefill_trails rnd cs k [] = ([], k)"
| "prefill_trails rnd cs k (d # rest) =
     (let d' = d\<lparr>trail := trail d @ random_chars rnd k (trailLength d) cs\<rparr>;
          (ds, k') = prefill_trails rnd cs (k + trailLength d) rest
      in (d' # ds, k'))"

text \<open>
  \<open>Math.ceil(canvasWidth / this.fontSize)\<close> and
  \<open>Math.max(1, Math.floor(columns * (this.density / 100)))\<close>, each quotient and
  product rounded as it is computed.
\<close>

definition columns_of :: "MatrixRainCore \<Rightarrow> real \<Rightarrow> jsnum" where
  "columns_of c canvasWidth = jceil (jround (jdiv canvasWidth (fontSize c)))"

definition actualColumns_of :: "MatrixRainCore \<Rightarrow> real \<Rightarrow> jsnum" where
  "actualColumns_of c canvasWidth =
     jmax1 (jfloor (jmul (columns_of c canvasWidth) (jfl (density c / 100))))"

definition initDrops ::
  "random_source \<Rightarrow> real \<Rightarrow> MatrixRainCore \<times> nat \<Rightarrow> failure + MatrixRainCore \<times> nat" where
  "initDrops rnd canvasWidth = (\<lambda>(c, k).
     case array_from_length (columns_of c canvasWidth) of
       Inl err \<Rightarrow> Inl err
     | Inr allIndices \<Rightarrow>
        (case loop_rounds (actualColumns_of c canvasWidth) of
           Inl err \<Rightarrow> Inl err
         | Inr n \<Rightarrow>
            (let selectedIndices = select_indices rnd k n allIndices;
                 (ds, k1) = make_drops rnd c canvasWidth (k + n) selectedIndices;
                 (ds', k2) = prefill_trails rnd (currentCharset c) k1 ds
             in Inr (c\<lparr>drops := ds'\<rparr>, k2))))"

text \<open>
  One round of the \<open>drawDrops\<close> loop, drawing part: the trail from index 0 on, an
  entry above the top edge skipped, then the leading glyph. An \<open>undefined\<close> column
  index makes the x coordinate NaN.
\<close>

definition drop_x :: "MatrixRainCore \<Rightarrow> Drop \<Rightarrow> jsnum" where
  "drop_x c d = (case xIndex d of None \<Rightarrow> NaN | Some i \<Rightarrow> Num (real i * fontSize c))"

definition draw_trail_entry :: "MatrixRainCore \<Rightarrow> Drop \<Rightarrow> nat \<Rightarrow> ctx_op list" where
  "draw_trail_entry c d j =
     (let trailY = drop_y d - (real j + 1) * fontSize c
      in if trailY + fontSize c < 0 then []
         else (let intensity = jminus 1 (jdiv (real j) (real (trailLength d)))
               in [Set_fillStyle (getColorByIntensity intensity (currentTheme c)),
                   FillText (trail d ! j) (drop_x c d) trailY]))"

definition draw_drop :: "MatrixRainCore \<Rightarrow> Drop \<Rightarrow> ctx_op list" where
  "draw_drop c d =
     concat (map (draw_trail_entry c d) [0..<length (trail d)]) @
     [Set_fillStyle (getColorByIntensity (Num 1) (currentTheme c)),
      FillText (currentChar d) (drop_x c d) (drop_y d)]"

text \<open>
  The animating part of a round: glyph refresh when the counter reaches the interval,
  the fall, and the respawn once the drop is below the surface.
\<close>

definition refresh_glyph :: "random_source \<Rightarrow> MatrixRainCore \<Rightarrow> nat \<Rightarrow> Drop \<Rightarrow> Drop \<times> nat" where
  "refresh_glyph rnd c k d =
     (let d1 = d\<lparr>updateCounter := updateCounter d + 1\<rparr>
      in if updateCounter d1 \<ge> updateInterval d1
         then (let unshifted = currentChar d1 # trail d1;
                   popped = (if length unshifted > trailLength d1
                             then butlast unshifted else unshifted)
               in (d1\<lparr>updateCounter := 0, trail := popped,
                      currentChar := getRandomChar (rnd k) (currentCharset c)\<rparr>, Suc k))
         else (d1, k))"

definition respawn :: "random_source \<Rightarrow> MatrixRainCore \<Rightarrow> nat \<Rightarrow> Drop \<Rightarrow> Drop \<times> nat" where
  "respawn rnd c k d =
     (d\<lparr>drop_y := - real (trailLength d) * fontSize c,
        drop_speed := (rnd k * 2 + 1.5) * (speed c / 100),
        updateCounter := 0,
        updateInterval := \<lfloor>rnd (k + 1) * 4\<rfloor> + 3,
        currentChar := getRandomChar (rnd (k + 2)) (currentCharset c),
        trail := []\<rparr>, k + 3)"

definition update_drop ::
  "random_source \<Rightarrow> MatrixRainCore \<Rightarrow> real \<Rightarrow> nat \<Rightarrow> Drop \<Rightarrow> Drop \<times> nat" where
  "update_drop rnd c canvasHeight k d =
     (let (d1, k1) = refresh_glyph rnd c k d;
          d2 = d1\<lparr>drop_y := drop_y d1 + drop_speed d1\<rparr>
      in if drop_y d2 > canvasHeight then respawn rnd c k1 d2 else (d2, k1))"

fun drawDrops_loop ::
  "random_source \<Rightarrow> MatrixRainCore \<Rightarrow> real \<Rightarrow> bool \<Rightarrow> nat \<Rightarrow> Drop list
     \<Rightarrow> Drop list \<times> ctx_op list \<times> nat" where
  "drawDrops_loop rnd c canvasHeight isAnimating k [] = ([], [], k)"
| "drawDrops_loop rnd c canvasHeight isAnimating k (d # rest) =
     (let ops = draw_drop c d;
          (d', k1) = (if isAnimating then update_drop rnd c canvasHeight k d else (d, k));
          (ds, opss, k2) = drawDrops_loop rnd c canvasHeight isAnimating k1 rest
      in (d' # ds, ops @ opss, k2))"

definition drawDrops ::
  "random_source \<Rightarrow> real \<Rightarrow> bool \<Rightarrow> MatrixRainCore \<times> nat
     \<Rightarrow> MatrixRainCore \<times> ctx_op list \<times> nat" where
  "drawDrops rnd canvasHeight isAnimating = (\<lambda>(c, k).
     let (ds, ops, k') = drawDrops_loop rnd c canvasHeight isAnimating k (drops c)
     in (c\<lparr>drops := ds\<rparr>, ops, k'))"

text \<open>
  \<open>updateConfig\<close> takes a partial configuration: a field that is absent is \<open>None\<close>.
\<close>

record config_update =
  new_fontSize :: "real option"
  new_density :: "real option"
  new_speed :: "real option"
  new_currentCharset :: "CharsetKey option"
  new_currentTheme :: "ThemeKey option"

definition no_update :: config_update where
  "no_update = \<lparr>new_fontSize = None, new_density = None, new_speed = None,
     new_currentCharset = None, new_currentTheme = None\<rparr>"

fun respeed_drops :: "random_source \<Rightarrow> real \<Rightarrow> nat \<Rightarrow> Drop list \<Rightarrow> Drop list \<times> nat" where
  "respeed_drops rnd sp k [] = ([], k)"
| "respeed_drops rnd sp k (d # rest) =
     (let d' = d\<lparr>drop_speed := (rnd k * 2 + 1.5) * (sp / 100)\<rparr>;
          (ds, k') = respeed_drops rnd sp (Suc k) rest
      in (d' # ds, k'))"

fun recharset_drops ::
  "random_source \<Rightarrow> CharsetKey \<Rightarrow> nat \<Rightarrow> Drop list \<Rightarrow> Drop list \<times> nat" where
  "recharset_drops rnd cs k [] = ([], k)"
| "recharset_drops rnd cs k (d # rest) =
     (let d1 = d\<lparr>currentChar := getRandomChar (rnd k) cs\<rparr>;
          d2 = d1\<lparr>trail := random_chars rnd (Suc k) (trailLength d1) cs\<rparr>;
          d3 = d2\<lparr>updateCounter := updateInterval d2\<rparr>;
          (ds, k') = recharset_drops rnd cs (Suc k + trailLength d) rest
      in (d3 # ds, k'))"

definition updateConfig ::
  "random_source \<Rightarrow> config_update \<Rightarrow> MatrixRainCore \<times> nat \<Rightarrow> MatrixRainCore \<times> nat" where
  "updateConfig rnd config = (\<lambda>(c, k).
     let c1 = (case new_fontSize config of None \<Rightarrow> c | Some v \<Rightarrow> c\<lparr>fontSize := v\<rparr>);
         c2 = (case new_density config of None \<Rightarrow> c1 | Some v \<Rightarrow> c1\<lparr>density := v\<rparr>);
         (c3, k3) = (case new_speed config of None \<Rightarrow> (c2, k)
                     | Some v \<Rightarrow>
                        (let (ds, k') = respeed_drops rnd v k (drops c2)
                         in (c2\<lparr>speed := v, drops := ds\<rparr>, k')));
         (c4, k4) = (case new_currentCharset config of None \<Rightarrow> (c3, k3)
                     | Some v \<Rightarrow>
                        (let (ds, k') = recharset_drops rnd v k3 (drops c3)
                         in (c3\<lparr>currentCharset := v, drops := ds\<rparr>, k')));
         c5 = (case new_currentTheme config of None \<Rightarrow> c4
               | Some v \<Rightarrow> c4\<lparr>currentTheme := v\<rparr>)
     in (c5, k4))"

section \<open>The effect layer (EffectRenderer)\<close>

datatype effect_type = Ripple | Explosion | Text | Follow

record Particle =
  part_x :: real
  part_y :: real
  vx :: real
  vy :: real
  part_life :: real
  part_maxLife :: real
  part_char :: "jsstring option"

record InteractionEffect =
  eff_x :: real
  eff_y :: real
  eff_type :: effect_type
  life :: real
  maxLife :: real
  radius :: real
  eff_text :: "jsstring option"
  particles :: "Particle list option"
  followerCount :: "real option"

record EffectRenderer =
  effects :: "InteractionEffect list"
  rendererTheme :: ThemeKey

definition new_EffectRenderer :: EffectRenderer where
  "new_EffectRenderer = \<lparr>effects = [], rendererTheme = Green\<rparr>"

definition addEffect :: "InteractionEffect \<Rightarrow> EffectRenderer \<Rightarrow> EffectRenderer" where
  "addEffect effect r = r\<lparr>effects := effects r @ [effect]\<rparr>"

text \<open>The particle loop of an explosion: each particle is moved, then drawn.\<close>

definition move_particle :: "Particle \<Rightarrow> Particle" where
  "move_particle p =
     p\<lparr>part_x := part_x p + vx p,
       part_y := part_y p + vy p,
       vy := vy p + 0.2,
       part_life := part_life p - 0.03\<rparr>"

definition draw_particle :: "string \<Rightarrow> Particle \<Rightarrow> ctx_op list" where
  "draw_particle themePrimary p =
     (let particleAlpha = jdiv (part_life p) (part_maxLife p)
      in if jgt particleAlpha 0
         then [Set_fillStyle (Blend themePrimary particleAlpha),
               FillText (part_char p) (Num (part_x p)) (part_y p)]
         else [])"

fun particle_loop :: "string \<Rightarrow> bool \<Rightarrow> Particle list \<Rightarrow> Particle list \<times> ctx_op list" where
  "particle_loop themePrimary isAnimating [] = ([], [])"
| "particle_loop themePrimary isAnimating (p # rest) =
     (let p' = (if isAnimating then move_particle p else p);
          ops = draw_particle themePrimary p';
          (ps, opss) = particle_loop themePrimary isAnimating rest
      in (p' # ps, ops @ opss))"

text \<open>
  The follower loop \<open>for (let j = 0; j < followerCount; j++)\<close>, \<open>n\<close> rounds still
  to run from index \<open>j\<close>. The divisor \<open>followerCount\<close> is never zero here.
\<close>

fun follower_loop ::
  "random_source \<Rightarrow> string \<Rightarrow> CharsetKey \<Rightarrow> jsnum \<Rightarrow> real \<Rightarrow> InteractionEffect
     \<Rightarrow> nat \<Rightarrow> nat \<Rightarrow> nat \<Rightarrow> ctx_op list \<times> nat" where
  "follower_loop rnd themePrimary charset alpha fc effect 0 j k = ([], k)"
| "follower_loop rnd themePrimary charset alpha fc effect (Suc n) j k =
     (let followerAlpha = jtimes alpha (1 - real j / fc)
      in if jle followerAlpha 0
         then follower_loop rnd themePrimary charset alpha fc effect n (Suc j) k
         else (let followerX = eff_x effect + sin (real j) * 10;
                   followerY = eff_y effect + real j * 15;
                   ops = [Set_fillStyle (Blend themePrimary followerAlpha),
                          FillText (getRandomChar (rnd k) charset) (Num followerX) followerY];
                   (opss, k') = follower_loop rnd themePrimary charset alpha fc effect
                                  n (Suc j) (Suc k)
               in (ops @ opss, k')))"

text \<open>\<open>effect.followerCount || 10\<close>: \<open>undefined\<close> and 0 are falsy.\<close>

definition followerCount_or_10 :: "InteractionEffect \<Rightarrow> real" where
  "followerCount_or_10 effect =
     (case followerCount effect of None \<Rightarrow> 10 | Some n \<Rightarrow> if n = 0 then 10 else n)"

text \<open>\<open>!effect.text\<close>: \<open>undefined\<close> and the empty string are falsy.\<close>

definition text_falsy :: "InteractionEffect \<Rightarrow> bool" where
  "text_falsy effect = (case eff_text effect of None \<Rightarrow> True | Some s \<Rightarrow> s = [])"

text \<open>
  One round of the \<open>renderEffects\<close> loop. \<open>alpha\<close> is read once, before the update
  of the round. The result is \<open>None\<close> when the round splices the effect out.
\<close>

definition render_effect ::
  "random_source \<Rightarrow> string \<Rightarrow> real \<Rightarrow> CharsetKey \<Rightarrow> bool \<Rightarrow> nat \<Rightarrow> InteractionEffect
     \<Rightarrow> InteractionEffect option \<times> ctx_op list \<times> nat" where
  "render_effect rnd themePrimary fontSz charset isAnimating k effect =
     (let alpha = jdiv (life effect) (maxLife effect)
      in case eff_type effect of
        Ripple \<Rightarrow>
          (let e1 = (if isAnimating
                     then effect\<lparr>life := life effect - 0.02, radius := radius effect + 3\<rparr>
                     else effect)
           in if isAnimating \<and> jle alpha 0 then (None, [], k)
              else (Some e1,
                    [Set_strokeStyle (Blend themePrimary alpha), Set_lineWidth 2, BeginPath,
                     Arc (eff_x e1) (eff_y e1) (radius e1) 0 (pi * 2), Stroke], k))
      | Explosion \<Rightarrow>
          (let e1 = (if isAnimating then effect\<lparr>life := life effect - 0.03\<rparr> else effect)
           in if isAnimating \<and> jle alpha 0 then (None, [], k)
              else (case particles e1 of
                      None \<Rightarrow> (Some e1, [], k)
                    | Some ps \<Rightarrow>
                       (let (ps', ops) = particle_loop themePrimary isAnimating ps
                        in (Some (e1\<lparr>particles := Some ps'\<rparr>), ops, k))))
      | Text \<Rightarrow>
          (let e1 = (if isAnimating then effect\<lparr>life := life effect - 0.015\<rparr> else effect)
           in if isAnimating \<and> (jle alpha 0 \<or> text_falsy e1) then (None, [], k)
              else (Some e1,
                    [Set_font (fontSz + 10), Set_textAlign Align_center,
                     Set_textBaseline Baseline_middle,
                     Set_fillStyle (Blend themePrimary alpha),
                     FillText (eff_text e1) (Num (eff_x e1)) (eff_y e1),
                     Set_textAlign Align_left, Set_textBaseline Baseline_top], k))
      | Follow \<Rightarrow>
          (let e1 = (if isAnimating then effect\<lparr>life := life effect - 0.01\<rparr> else effect)
           in if isAnimating \<and> jle alpha 0 then (None, [], k)
              else (let fc = followerCount_or_10 e1;
                        (ops, k') = follower_loop rnd themePrimary charset alpha fc e1
                                      (nat \<lceil>fc\<rceil>) 0 k
                    in (Some e1, ops, k'))))"

text \<open>
  The loop runs from the last index down to 0 and splices in place, so it visits the
  effects in reverse order and the survivors keep their order.
\<close>

fun renderEffects_loop ::
  "random_source \<Rightarrow> string \<Rightarrow> real \<Rightarrow> CharsetKey \<Rightarrow> bool \<Rightarrow> nat \<Rightarrow> InteractionEffect list
     \<Rightarrow> InteractionEffect list \<times> ctx_op list \<times> nat" where
  "renderEffects_loop rnd themePrimary fontSz charset isAnimating k [] = ([], [], k)"
| "renderEffects_loop rnd themePrimary fontSz charset isAnimating k (effect # earlier) =
     (let (kept, ops, k1) = render_effect rnd themePrimary fontSz charset isAnimating k effect;
          (es, opss, k2) = renderEffects_loop rnd themePrimary fontSz charset isAnimating k1 earlier
      in ((case kept of None \<Rightarrow> es | Some e \<Rightarrow> e # es), ops @ opss, k2))"

definition renderEffects ::
  "random_source \<Rightarrow> real \<Rightarrow> CharsetKey \<Rightarrow> bool \<Rightarrow> EffectRenderer \<times> nat
     \<Rightarrow> EffectRenderer \<times> ctx_op list \<times> nat" where
  "renderEffects rnd fontSz charset isAnimating = (\<lambda>(r, k).
     let themePrimary = primary (THEMES (rendererTheme r));
         (es, ops, k') = renderEffects_loop rnd themePrimary fontSz charset isAnimating k
                           (rev (effects r))
     in (r\<lparr>effects := rev es\<rparr>, ops, k'))"

section \<open>The dispatcher (InteractionHandler)\<close>

text \<open>
  The handler owns the pointer position and reports each effect to the callback it was
  built with; the model returns the effects reported, in order. \<open>isMobileDevice()\<close>
  reads the user agent of the host and is a parameter.
\<close>

record InteractionHandler =
  mousePosition :: "real \<times> real"

definition new_InteractionHandler :: InteractionHandler where
  "new_InteractionHandler = \<lparr>mousePosition = (0, 0)\<rparr>"




definition handleMove ::
  "real \<Rightarrow> real \<Rightarrow> InteractionHandler \<Rightarrow> InteractionHandler \<times> InteractionEffect list" where
  "handleMove x0 y0 h =
     (h\<lparr>mousePosition := (x0, y0)\<rparr>,
      [\<lparr>eff_x = x0, eff_y = y0, eff_type = Ripple, life = 1, maxLife = 1, radius = 5,
        eff_text = None, particles = None, followerCount = None\<rparr>])"

definition createTextEffect :: "real \<Rightarrow> real \<Rightarrow> jsstring \<Rightarrow> InteractionEffect list" where
  "createTextEffect x0 y0 txt =
     [\<lparr>eff_x = x0, eff_y = y0, eff_type = Text, life = 1, maxLife = 1, radius = 0,
       eff_text = Some txt, particles = None, followerCount = None\<rparr>]"

definition createFollowEffect :: "InteractionHandler \<Rightarrow> InteractionEffect list" where
  "createFollowEffect h =
     [\<lparr>eff_x = fst (mousePosition h), eff_y = snd (mousePosition h), eff_type = Follow,
       life = 1, maxLife = 1, radius = 0, eff_text = None, particles = None,
       followerCount = Some 15\<rparr>]"

section \<open>Sequences of calls\<close>

text \<open>
  One paused frame of the host: \<open>drawDrops\<close>, then \<open>renderEffects\<close>, both with
  \<open>isAnimating = false\<close>.
\<close>

definition paused_frame ::
  "random_source \<Rightarrow> real \<Rightarrow> real \<Rightarrow> CharsetKey \<Rightarrow> MatrixRainCore \<times> EffectRenderer \<times> nat
     \<Rightarrow> MatrixRainCore \<times> EffectRenderer \<times> nat" where
  "paused_frame rnd canvasHeight fontSz charset = (\<lambda>(c, r, k).
     let (c', ops1, k1) = drawDrops rnd canvasHeight False (c, k);
         (r', ops2, k2) = renderEffects rnd fontSz charset False (r, k1)
     in (c', r', k2))"

section \<open>Measures and sample inputs\<close>

text \<open>The number of \<open>fillText\<close> calls in a sequence of drawing calls.\<close>

fun count_fillText :: "ctx_op list \<Rightarrow> nat" where
  "count_fillText [] = 0"
| "count_fillText (FillText s x0 y0 # ops) = Suc (count_fillText ops)"
| "count_fillText (_ # ops) = count_fillText ops"

text \<open>A drawing call without the glyph passed to \<open>fillText\<close>.\<close>

fun blank_text :: "ctx_op \<Rightarrow> ctx_op" where
  "blank_text (FillText s x0 y0) = FillText None x0 y0"
| "blank_text op = op"

text \<open>
  The ripple of the test "should remove expired effects" (life 0.01), and a follower
  effect with a given \<open>followerCount\<close> field.
\<close>

definition sample_ripple :: InteractionEffect where
  "sample_ripple =
     \<lparr>eff_x = 100, eff_y = 100, eff_type = Ripple, life = 1 / 100, maxLife = 1, radius = 5,
      eff_text = None, particles = None, followerCount = None\<rparr>"

definition sample_follow :: "real option \<Rightarrow> InteractionEffect" where
  "sample_follow fc =
     \<lparr>eff_x = 100, eff_y = 100, eff_type = Follow, life = 1, maxLife = 1, radius = 0,
      eff_text = None, particles = None, followerCount = fc\<rparr>"

text \<open>A drop below an 800 pixel surface, and a core that holds it.\<close>

definition sample_drop :: Drop where
  "sample_drop =
     \<lparr>drop_y = 800, drop_speed = 2, trail = [], trailLength = 8, updateCounter = 0,
      updateInterval = 3, currentChar = Some (map of_char ''A''), xIndex = Some 0\<rparr>"

definition sample_core :: MatrixRainCore where
  "sample_core = new_MatrixRainCore\<lparr>drops := [sample_drop]\<rparr>"


text \<open>
  The calls a host makes on the core, and a run of them; a call that throws ends the
  run.
\<close>

datatype core_call = InitDrops real | DrawDrops real bool | UpdateConfig config_update

fun run_call ::
  "random_source \<Rightarrow> core_call \<Rightarrow> MatrixRainCore \<times> nat \<Rightarrow> failure + MatrixRainCore \<times> nat" where
  "run_call rnd (InitDrops canvasWidth) s = initDrops rnd canvasWidth s"
| "run_call rnd (DrawDrops canvasHeight isAnimating) s =
     (case drawDrops rnd canvasHeight isAnimating s of (c, ops, k) \<Rightarrow> Inr (c, k))"
| "run_call rnd (UpdateConfig config) s = Inr (updateConfig rnd config s)"

fun run_calls ::
  "random_source \<Rightarrow> core_call list \<Rightarrow> MatrixRainCore \<times> nat \<Rightarrow> failure + MatrixRainCore \<times> nat" where
  "run_calls rnd [] s = Inr s"
| "run_calls rnd (call # calls) s =
     (case run_call rnd call s of Inl err \<Rightarrow> Inl err | Inr s' \<Rightarrow> run_calls rnd calls s')"

text \<open>The bound on a drop's trail that every call keeps.\<close>

definition trail_bounded :: "Drop \<Rightarrow> bool" where
  "trail_bounded d = (length (trail d) \<le> trailLength d \<and> trailLength d = 8)"

section \<open>Paused frames\<close>

lemma drawDrops_loop_paused:
  "drawDrops_loop rnd c h False k ds = (ds, concat (map (draw_drop c) ds), k)"
  by (induction ds) simp_all

lemma drawDrops_paused:
  "drawDrops rnd h False (c, k) = (c, concat (map (draw_drop c) (drops c)), k)"
  by (simp add: drawDrops_def drawDrops_loop_paused)

lemma particle_loop_paused: "fst (particle_loop tp False ps) = ps"
  by (induction ps) (simp_all add: split_beta)

lemma render_effect_paused:
  "fst (render_effect rnd tp fs cs False k e) = Some e"
  by (cases "eff_type e")
     (simp_all add: render_effect_def Let_def split_beta particle_loop_paused
        split: option.splits)

lemma renderEffects_loop_paused:
  "fst (renderEffects_loop rnd tp fs cs False k es) = es"
proof (induction es arbitrary: k)
  case Nil
  show ?case by simp
next
  case (Cons e es)
  obtain kept ops k1 where step: "render_effect rnd tp fs cs False k e = (kept, ops, k1)"
    by (cases "render_effect rnd tp fs cs False k e") auto
  with render_effect_paused [of rnd tp fs cs k e] have "kept = Some e" by simp
  with step Cons.IH [of k1] show ?case by (simp add: split_beta)
qed

lemma renderEffects_paused:
  "fst (renderEffects rnd fs cs False (r, k)) = r"
  by (simp add: renderEffects_def Let_def split_beta renderEffects_loop_paused)

lemma paused_frame_fixes:
  "\<exists>k'. paused_frame rnd h fs cs (c, r, k) = (c, r, k')"
  using renderEffects_paused [of rnd fs cs r k]
  by (cases "renderEffects rnd fs cs False (r, k)")
     (simp add: paused_frame_def drawDrops_paused)

lemma paused_frames_fix:
  "\<exists>k'. (paused_frame rnd h fs cs ^^ n) (c, r, k) = (c, r, k')"
proof (induction n)
  case 0
  show ?case by simp
next
  case (Suc n)
  then obtain k1 where "(paused_frame rnd h fs cs ^^ n) (c, r, k) = (c, r, k1)" ..
  with paused_frame_fixes [of rnd h fs cs c r k1] show ?case by simp
qed

section \<open>The follower loop\<close>

lemma jle_jtimes_pos: "0 < r \<Longrightarrow> jle (jtimes a r) 0 = jle a 0"
  by (cases a) (simp_all add: mult_le_0_iff)

lemma upt_shift: "[0..<Suc n] = 0 # map Suc [0..<n]"
  by (simp add: upt_conv_Cons map_Suc_upt del: upt_Suc)

lemma follower_loop_drawn:
  assumes "\<not> jle alpha 0" and "0 < fc" and "real (j + n) \<le> fc"
  shows "follower_loop rnd tp cs alpha fc e n j k =
     (concat (map (\<lambda>i. [Set_fillStyle (Blend tp (jtimes alpha (1 - real (j + i) / fc))),
                          FillText (getRandomChar (rnd (k + i)) cs)
                            (Num (eff_x e + sin (real (j + i)) * 10))
                            (eff_y e + real (j + i) * 15)]) [0..<n]), k + n)"
  using assms
proof (induction n arbitrary: j k)
  case 0
  show ?case by simp
next
  case (Suc n)
  from Suc.prems have "real j < fc" by simp
  with \<open>0 < fc\<close> have pos: "0 < 1 - real j / fc" by simp
  with Suc.prems have draw: "\<not> jle (jtimes alpha (1 - real j / fc)) 0"
    by (simp add: jle_jtimes_pos)
  have "real (Suc j + n) \<le> fc" using Suc.prems by simp
  from Suc.IH [OF Suc.prems(1) Suc.prems(2) this, of "Suc k"] draw
  show ?case
    by (simp add: upt_shift comp_def ac_simps del: upt_Suc)
qed

lemma follower_loop_skipped:
  assumes "jle alpha 0" and "0 < fc" and "real (j + n) \<le> fc"
  shows "follower_loop rnd tp cs alpha fc e n j k = ([], k)"
  using assms
proof (induction n arbitrary: j)
  case 0
  show ?case by simp
next
  case (Suc n)
  from Suc.prems have "real j < fc" by simp
  with \<open>0 < fc\<close> have pos: "0 < 1 - real j / fc" by simp
  with Suc.prems have skip: "jle (jtimes alpha (1 - real j / fc)) 0"
    by (simp add: jle_jtimes_pos)
  have "real (Suc j + n) \<le> fc" using Suc.prems by simp
  from Suc.IH [OF Suc.prems(1) Suc.prems(2) this] skip
  show ?case by simp
qed

lemma render_follow_ten:
  assumes "eff_type e = Follow" and "followerCount_or_10 e = 10"
    and "\<not> jle (jdiv (life e) (maxLife e)) 0"
  shows "snd (render_effect rnd tp fs cs anim k e) =
     (concat (map (\<lambda>j. [Set_fillStyle (Blend tp (jtimes (jdiv (life e) (maxLife e)) (1 - real j / 10))),
                          FillText (getRandomChar (rnd (k + j)) cs)
                            (Num (eff_x e + sin (real j) * 10))
                            (eff_y e + real j * 15)]) [0..<10]), k + 10)"
proof -
  have fc: "followerCount_or_10 (e\<lparr>life := life e - 0.01\<rparr>) = 10"
    using assms(2) by (simp add: followerCount_or_10_def)
  have loop: "follower_loop rnd tp cs (jdiv (life e) (maxLife e)) 10 e' 10 0 k =
     (concat (map (\<lambda>i. [Set_fillStyle (Blend tp (jtimes (jdiv (life e) (maxLife e)) (1 - real (0 + i) / 10))),
                          FillText (getRandomChar (rnd (k + i)) cs)
                            (Num (eff_x e' + sin (real (0 + i)) * 10))
                            (eff_y e' + real (0 + i) * 15)]) [0..<10]), k + 10)" for e'
    by (rule follower_loop_drawn) (use assms(3) in simp_all)
  show ?thesis
    using assms fc
    by (cases anim) (simp_all add: render_effect_def Let_def loop)
qed

lemma render_follow_none:
  assumes "eff_type e = Follow" and "followerCount_or_10 e = 10"
    and "jle (jdiv (life e) (maxLife e)) 0"
  shows "snd (render_effect rnd tp fs cs anim k e) = ([], k)"
proof -
  have loop: "follower_loop rnd tp cs (jdiv (life e) (maxLife e)) 10 e' 10 0 k = ([], k)" for e'
    by (rule follower_loop_skipped) (use assms(3) in simp_all)
  show ?thesis
    using assms
    by (cases anim) (simp_all add: render_effect_def Let_def loop)
qed

lemma count_fillText_append: "count_fillText (xs @ ys) = count_fillText xs + count_fillText ys"
  by (induction xs rule: count_fillText.induct) simp_all

lemma count_fillText_glyphs:
  "count_fillText (concat (map (\<lambda>j. [Set_fillStyle (f j), FillText (g j) (h j) (v j)]) js)) = length js"
  by (induction js) simp_all

lemma renderEffects_single:
  "renderEffects rnd fs cs anim (\<lparr>effects = [e], rendererTheme = th\<rparr>, k) =
     (case render_effect rnd (primary (THEMES th)) fs cs anim k e of
        (kept, ops, k') \<Rightarrow>
          (\<lparr>effects = (case kept of None \<Rightarrow> [] | Some e' \<Rightarrow> [e']), rendererTheme = th\<rparr>, ops, k'))"
  by (simp add: renderEffects_def Let_def split: prod.splits option.splits)

lemma follower_loop_all_drawn:
  assumes "\<not> jle alpha 0" and "0 < fc" and "real (j + n) < fc + 1"
  shows "follower_loop rnd tp cs alpha fc e n j k =
     (concat (map (\<lambda>i. [Set_fillStyle (Blend tp (jtimes alpha (1 - real (j + i) / fc))),
                          FillText (getRandomChar (rnd (k + i)) cs)
                            (Num (eff_x e + sin (real (j + i)) * 10))
                            (eff_y e + real (j + i) * 15)]) [0..<n]), k + n)"
  using assms
proof (induction n arbitrary: j k)
  case 0
  show ?case by simp
next
  case (Suc n)
  from Suc.prems have "real j < fc" by simp
  with \<open>0 < fc\<close> have pos: "0 < 1 - real j / fc" by simp
  with Suc.prems have draw: "\<not> jle (jtimes alpha (1 - real j / fc)) 0"
    by (simp add: jle_jtimes_pos)
  have "real (Suc j + n) < fc + 1" using Suc.prems by simp
  from Suc.IH [OF Suc.prems(1) Suc.prems(2) this, of "Suc k"] draw
  show ?case
    by (simp add: upt_shift comp_def Let_def add_ac del: upt_Suc)
qed

lemma follower_loop_all_skipped:
  assumes "jle alpha 0" and "0 < fc" and "real (j + n) < fc + 1"
  shows "follower_loop rnd tp cs alpha fc e n j k = ([], k)"
  using assms
proof (induction n arbitrary: j)
  case 0
  show ?case by simp
next
  case (Suc n)
  from Suc.prems have "real j < fc" by simp
  with \<open>0 < fc\<close> have pos: "0 < 1 - real j / fc" by simp
  with Suc.prems have skip: "jle (jtimes alpha (1 - real j / fc)) 0"
    by (simp add: jle_jtimes_pos)
  have "real (Suc j + n) < fc + 1" using Suc.prems by simp
  from Suc.IH [OF Suc.prems(1) Suc.prems(2) this] skip
  show ?case by simp
qed

lemma follower_rounds: "real (0 + nat \<lceil>fc\<rceil>) < fc + 1" if "0 < fc" for fc :: real
proof -
  from that have "0 \<le> \<lceil>fc\<rceil>" by linarith
  then have "real (nat \<lceil>fc\<rceil>) = of_int \<lceil>fc\<rceil>" by simp
  moreover have "of_int \<lceil>fc\<rceil> < fc + 1" by linarith
  ultimately show ?thesis by simp
qed

lemma follower_no_rounds: "nat \<lceil>fc\<rceil> = 0" if "fc \<le> 0" for fc :: real
proof -
  from that have "\<lceil>fc\<rceil> \<le> 0" by (simp add: ceiling_le_iff)
  then show ?thesis by simp
qed

text \<open>The glyphs of a follower effect, for any count, when the fade is not \<open>\<le> 0\<close>.\<close>

lemma follower_glyphs:
  assumes "\<not> jle alpha 0"
  shows "follower_loop rnd tp cs alpha fc e (nat \<lceil>fc\<rceil>) 0 k =
     (concat (map (\<lambda>j. [Set_fillStyle (Blend tp (jtimes alpha (1 - real j / fc))),
                          FillText (getRandomChar (rnd (k + j)) cs)
                            (Num (eff_x e + sin (real j) * 10))
                            (eff_y e + real j * 15)]) [0..<nat \<lceil>fc\<rceil>]), k + nat \<lceil>fc\<rceil>)"
proof (cases "0 < fc")
  case True
  from follower_loop_all_drawn [OF assms True follower_rounds [OF True], of rnd tp cs e k]
  show ?thesis by simp
next
  case False
  then have "nat \<lceil>fc\<rceil> = 0" by (simp add: follower_no_rounds)
  then show ?thesis by simp
qed

lemma follower_no_glyphs:
  assumes "jle alpha 0"
  shows "follower_loop rnd tp cs alpha fc e (nat \<lceil>fc\<rceil>) 0 k = ([], k)"
proof (cases "0 < fc")
  case True
  from follower_loop_all_skipped [OF assms True follower_rounds [OF True]]
  show ?thesis .
next
  case False
  then have "nat \<lceil>fc\<rceil> = 0" by (simp add: follower_no_rounds)
  then show ?thesis by simp
qed

section \<open>Expiry of effects\<close>

lemma particle_loop_fst:
  "fst (particle_loop tp anim ps) = map (\<lambda>p. if anim then move_particle p else p) ps"
  by (induction ps) (simp_all add: split_beta Let_def)

lemma render_effect_removed_iff:
  "fst (render_effect rnd tp fs cs True k e) = None \<longleftrightarrow>
     jle (jdiv (life e) (maxLife e)) 0 \<or> (eff_type e = Text \<and> text_falsy e)"
  by (cases "eff_type e")
     (simp_all add: render_effect_def Let_def split_beta text_falsy_def split: option.splits)

lemma render_effect_removed_silent:
  "fst (render_effect rnd tp fs cs anim k e) = None \<Longrightarrow>
     snd (render_effect rnd tp fs cs anim k e) = ([], k)"
  by (cases "eff_type e")
     (simp_all add: render_effect_def Let_def split_beta split: option.splits if_splits)

lemma render_effect_fst_indep:
  "fst (render_effect rnd tp fs cs anim k e) = fst (render_effect rnd' tp' fs' cs' anim k' e)"
  by (cases "eff_type e")
     (simp_all add: render_effect_def Let_def split_beta particle_loop_fst split: option.splits)

lemma renderEffects_loop_fst:
  "fst (renderEffects_loop rnd tp fs cs anim k es) =
     List.map_filter (\<lambda>e. fst (render_effect rnd tp fs cs anim 0 e)) es"
proof (induction es arbitrary: k)
  case Nil
  show ?case by (simp add: List.map_filter_simps)
next
  case (Cons e es)
  have "fst (render_effect rnd tp fs cs anim k e) = fst (render_effect rnd tp fs cs anim 0 e)"
    by (rule render_effect_fst_indep)
  with Cons.IH show ?case
    by (simp add: split_beta List.map_filter_simps split: option.splits)
qed

lemma map_filter_rev: "List.map_filter f (rev xs) = rev (List.map_filter f xs)"
  by (simp add: List.map_filter_def rev_map rev_filter)

lemma renderEffects_effects:
  "effects (fst (renderEffects rnd fs cs anim (r, k))) =
     List.map_filter (\<lambda>e. fst (render_effect rnd (primary (THEMES (rendererTheme r))) fs cs anim 0 e))
       (effects r)"
  by (simp add: renderEffects_def Let_def split_beta renderEffects_loop_fst map_filter_rev)

lemma expired_at_start:
  "0 < maxLife e \<Longrightarrow> life e \<le> 0 \<Longrightarrow> jle (jdiv (life e) (maxLife e)) 0"
  by (simp add: jdiv_def divide_le_0_iff)

text \<open>
  Claim C1, as stated, fails: the removal test reads the fade fraction computed before
  the decrement of the tick. The sample ripple has life 0.01; after the decrement of an
  animating tick its fade fraction is \<open>-0.01 / 1 \<le> 0\<close>, yet the tick keeps it in the
  collection (with life \<open>-0.01\<close>) and strokes its circle.
\<close>

theorem expiry_after_decrement_counterexample:
  "jle (jdiv (life sample_ripple - 0.02) (maxLife sample_ripple)) 0 \<and>
   renderEffects rnd_zero 24 Cs_en True (\<lparr>effects = [sample_ripple], rendererTheme = Green\<rparr>, 0) =
   (\<lparr>effects = [sample_ripple\<lparr>life := - (1 / 100), radius := 8\<rparr>], rendererTheme = Green\<rparr>,
    [Set_strokeStyle (Blend ''#00ff00'' (Num (1 / 100))), Set_lineWidth 2, BeginPath,
     Arc 100 100 8 0 (pi * 2), Stroke], 0)"
  by (simp add: renderEffects_single render_effect_def sample_ripple_def jdiv_def)

lemma particle_loop_moved:
  "particle_loop tp True ps =
     (map move_particle ps, concat (map (\<lambda>p. draw_particle tp (move_particle p)) ps))"
  by (induction ps) (simp_all add: Let_def)

lemma particle_loop_still:
  "particle_loop tp False ps = (ps, concat (map (draw_particle tp) ps))"
  by (induction ps) (simp_all add: Let_def)

lemma render_ripple_kept:
  assumes "eff_type e = Ripple" and "\<not> jle (jdiv (life e) (maxLife e)) 0"
  shows "render_effect rnd tp fs cs True k e =
     (Some (e\<lparr>life := life e - 0.02, radius := radius e + 3\<rparr>),
      [Set_strokeStyle (Blend tp (jdiv (life e) (maxLife e))), Set_lineWidth 2, BeginPath,
       Arc (eff_x e) (eff_y e) (radius e + 3) 0 (pi * 2), Stroke], k)"
  using assms by (simp add: render_effect_def Let_def)

lemma render_explosion_kept:
  assumes "eff_type e = Explosion" and "\<not> jle (jdiv (life e) (maxLife e)) 0"
  shows "render_effect rnd tp fs cs True k e =
     (Some (e\<lparr>life := life e - 0.03,
              particles := map_option (map move_particle) (particles e)\<rparr>),
      (case particles e of None \<Rightarrow> []
       | Some ps \<Rightarrow> concat (map (\<lambda>p. draw_particle tp (move_particle p)) ps)), k)"
  using assms
  by (cases "particles e") (simp_all add: render_effect_def Let_def particle_loop_moved)

lemma render_text_kept:
  assumes "eff_type e = Text" and "\<not> jle (jdiv (life e) (maxLife e)) 0"
    and "\<not> text_falsy e"
  shows "render_effect rnd tp fs cs True k e =
     (Some (e\<lparr>life := life e - 0.015\<rparr>),
      [Set_font (fs + 10), Set_textAlign Align_center, Set_textBaseline Baseline_middle,
       Set_fillStyle (Blend tp (jdiv (life e) (maxLife e))),
       FillText (eff_text e) (Num (eff_x e)) (eff_y e),
       Set_textAlign Align_left, Set_textBaseline Baseline_top], k)"
  using assms by (simp add: render_effect_def Let_def text_falsy_def)

lemma render_follow_kept:
  assumes "eff_type e = Follow" and "\<not> jle (jdiv (life e) (maxLife e)) 0"
  shows "render_effect rnd tp fs cs True k e =
     (Some (e\<lparr>life := life e - 0.01\<rparr>),
      concat (map (\<lambda>j. [Set_fillStyle (Blend tp (jtimes (jdiv (life e) (maxLife e))
                                             (1 - real j / followerCount_or_10 e))),
                        FillText (getRandomChar (rnd (k + j)) cs)
                          (Num (eff_x e + sin (real j) * 10))
                          (eff_y e + real j * 15)]) [0..<nat \<lceil>followerCount_or_10 e\<rceil>]),
      k + nat \<lceil>followerCount_or_10 e\<rceil>)"
proof -
  have fc: "followerCount_or_10 (e\<lparr>life := v\<rparr>) = followerCount_or_10 e" for v
    by (simp add: followerCount_or_10_def)
  show ?thesis
    using assms
    by (simp add: render_effect_def Let_def fc follower_glyphs [OF assms(2)] del: upt_Suc)
qed

lemma kept_life:
  assumes "fst (render_effect rnd tp fs cs True k e) = Some e'"
  shows "life e' = life e - (case eff_type e of Ripple \<Rightarrow> 0.02 | Explosion \<Rightarrow> 0.03
                                | Text \<Rightarrow> 0.015 | Follow \<Rightarrow> 0.01) \<and>
         maxLife e' = maxLife e \<and> eff_type e' = eff_type e \<and> eff_text e' = eff_text e"
  using assms
  by (cases "eff_type e")
     (auto simp: render_effect_def Let_def split_beta split: if_splits option.splits)

lemma removed_outright:
  assumes "0 < maxLife e" and "life e \<le> 0"
  shows "render_effect rnd tp fs cs True k e = (None, [], k)"
proof -
  from assms have "jle (jdiv (life e) (maxLife e)) 0" by (simp add: expired_at_start)
  then have none: "fst (render_effect rnd tp fs cs True k e) = None"
    by (simp add: render_effect_removed_iff)
  from render_effect_removed_silent [OF this] none show ?thesis
    by (cases "render_effect rnd tp fs cs True k e") simp
qed

text \<open>One call handles the last effect first, then the earlier ones.\<close>

lemma renderEffects_snoc:
  "renderEffects rnd fs cs anim (r\<lparr>effects := es @ [e]\<rparr>, k) =
     (case render_effect rnd (primary (THEMES (rendererTheme r))) fs cs anim k e of
        (kept, ops, k1) \<Rightarrow>
          (case renderEffects rnd fs cs anim (r\<lparr>effects := es\<rparr>, k1) of
             (r', ops', k2) \<Rightarrow>
               (r'\<lparr>effects := effects r' @ (case kept of None \<Rightarrow> [] | Some e' \<Rightarrow> [e'])\<rparr>,
                ops @ ops', k2)))"
  by (simp add: renderEffects_def Let_def split: prod.splits option.splits)

text \<open>
  Claim C1, amended. In an animating tick the round of an effect reads the fade
  fraction \<open>alpha = life / maxLife\<close> before the decrement of that tick. The effect is
  removed exactly when \<open>alpha \<le> 0\<close>, or it is a text effect with an empty or absent
  payload; a removed effect is not drawn in that tick and makes no random draw, so an
  effect whose life is \<open>\<le> 0\<close> (with a positive \<open>maxLife\<close>) when the tick starts is
  removed without being drawn. An effect that is kept leaves the round with its life
  reduced by the step of its kind (0.02 for a ripple, 0.03 for an explosion, 0.015 for a
  text, 0.01 for a follower), and once that life is \<open>\<le> 0\<close> (with a positive
  \<open>maxLife\<close>) the round of a later animating tick removes it without drawing. What
  the round draws for a kept effect: the
  circle of a ripple, its radius grown by 3, stroked with \<open>alpha\<close>; the payload of a
  text effect, filled with \<open>alpha\<close>; every glyph \<open>j\<close> of a follower, filled with
  \<open>alpha * (1 - j / count)\<close>; the particles of an explosion, each moved and then drawn
  with its own fade when that is positive, not with \<open>alpha\<close>. One tick runs these
  rounds from the last effect to the first, and the collection after the tick holds
  exactly the kept effects, in their order.
\<close>

theorem effect_expiry_by_fade_before_decrement:
  "(fst (render_effect rnd tp fs cs True k e) = None \<longleftrightarrow>
      jle (jdiv (life e) (maxLife e)) 0 \<or> (eff_type e = Text \<and> text_falsy e)) \<and>
   (fst (render_effect rnd tp fs cs True k e) = None \<longrightarrow>
      snd (render_effect rnd tp fs cs True k e) = ([], k)) \<and>
   (0 < maxLife e \<and> life e \<le> 0 \<longrightarrow> render_effect rnd tp fs cs True k e = (None, [], k)) \<and>
   (\<forall>e'. fst (render_effect rnd tp fs cs True k e) = Some e' \<longrightarrow>
      life e' = life e - (case eff_type e of Ripple \<Rightarrow> 0.02 | Explosion \<Rightarrow> 0.03
                            | Text \<Rightarrow> 0.015 | Follow \<Rightarrow> 0.01) \<and>
      maxLife e' = maxLife e \<and> eff_type e' = eff_type e \<and> eff_text e' = eff_text e \<and>
      (0 < maxLife e \<and> life e' \<le> 0 \<longrightarrow>
         (\<forall>k2. render_effect rnd tp fs cs True k2 e' = (None, [], k2)))) \<and>
   (eff_type e = Ripple \<and> \<not> jle (jdiv (life e) (maxLife e)) 0 \<longrightarrow>
      render_effect rnd tp fs cs True k e =
        (Some (e\<lparr>life := life e - 0.02, radius := radius e + 3\<rparr>),
         [Set_strokeStyle (Blend tp (jdiv (life e) (maxLife e))), Set_lineWidth 2, BeginPath,
          Arc (eff_x e) (eff_y e) (radius e + 3) 0 (pi * 2), Stroke], k)) \<and>
   (eff_type e = Explosion \<and> \<not> jle (jdiv (life e) (maxLife e)) 0 \<longrightarrow>
      render_effect rnd tp fs cs True k e =
        (Some (e\<lparr>life := life e - 0.03,
                 particles := map_option (map move_particle) (particles e)\<rparr>),
         (case particles e of None \<Rightarrow> []
          | Some ps \<Rightarrow> concat (map (\<lambda>p. draw_particle tp (move_particle p)) ps)), k)) \<and>
   (eff_type e = Text \<and> \<not> jle (jdiv (life e) (maxLife e)) 0 \<and> \<not> text_falsy e \<longrightarrow>
      render_effect rnd tp fs cs True k e =
        (Some (e\<lparr>life := life e - 0.015\<rparr>),
         [Set_font (fs + 10), Set_textAlign Align_center, Set_textBaseline Baseline_middle,
          Set_fillStyle (Blend tp (jdiv (life e) (maxLife e))),
          FillText (eff_text e) (Num (eff_x e)) (eff_y e),
          Set_textAlign Align_left, Set_textBaseline Baseline_top], k)) \<and>
   (eff_type e = Follow \<and> \<not> jle (jdiv (life e) (maxLife e)) 0 \<longrightarrow>
      render_effect rnd tp fs cs True k e =
        (Some (e\<lparr>life := life e - 0.01\<rparr>),
         concat (map (\<lambda>j. [Set_fillStyle (Blend tp (jtimes (jdiv (life e) (maxLife e))
                                                (1 - real j / followerCount_or_10 e))),
                           FillText (getRandomChar (rnd (k + j)) cs)
                             (Num (eff_x e + sin (real j) * 10))
                             (eff_y e + real j * 15)])
                   [0..<nat \<lceil>followerCount_or_10 e\<rceil>]),
         k + nat \<lceil>followerCount_or_10 e\<rceil>)) \<and>
   effects (fst (renderEffects rnd fs cs True (r, k))) =
     List.map_filter
       (\<lambda>e. fst (render_effect rnd (primary (THEMES (rendererTheme r))) fs cs True 0 e))
       (effects r) \<and>
   renderEffects rnd fs cs True (r\<lparr>effects := es @ [e]\<rparr>, k) =
     (case render_effect rnd (primary (THEMES (rendererTheme r))) fs cs True k e of
        (kept, ops, k1) \<Rightarrow>
          (case renderEffects rnd fs cs True (r\<lparr>effects := es\<rparr>, k1) of
             (r', ops', k2) \<Rightarrow>
               (r'\<lparr>effects := effects r' @ (case kept of None \<Rightarrow> [] | Some e' \<Rightarrow> [e'])\<rparr>,
                ops @ ops', k2)))"
proof -
  have 1: "fst (render_effect rnd tp fs cs True k e) = None \<longleftrightarrow>
      jle (jdiv (life e) (maxLife e)) 0 \<or> (eff_type e = Text \<and> text_falsy e)"
    by (rule render_effect_removed_iff)
  have 2: "fst (render_effect rnd tp fs cs True k e) = None \<longrightarrow>
      snd (render_effect rnd tp fs cs True k e) = ([], k)"
    using render_effect_removed_silent by blast
  have 3: "0 < maxLife e \<and> life e \<le> 0 \<longrightarrow> render_effect rnd tp fs cs True k e = (None, [], k)"
    using removed_outright by blast
  have 4: "\<forall>e'. fst (render_effect rnd tp fs cs True k e) = Some e' \<longrightarrow>
      life e' = life e - (case eff_type e of Ripple \<Rightarrow> 0.02 | Explosion \<Rightarrow> 0.03
                            | Text \<Rightarrow> 0.015 | Follow \<Rightarrow> 0.01) \<and>
      maxLife e' = maxLife e \<and> eff_type e' = eff_type e \<and> eff_text e' = eff_text e \<and>
      (0 < maxLife e \<and> life e' \<le> 0 \<longrightarrow>
         (\<forall>k2. render_effect rnd tp fs cs True k2 e' = (None, [], k2)))"
  proof (intro allI impI)
    fix e' assume kept: "fst (render_effect rnd tp fs cs True k e) = Some e'"
    note kl = kept_life [OF kept]
    have "\<forall>k2. render_effect rnd tp fs cs True k2 e' = (None, [], k2)"
      if "0 < maxLife e \<and> life e' \<le> 0"
    proof
      fix k2
      from that kl have "0 < maxLife e'" "life e' \<le> 0" by simp_all
      then show "render_effect rnd tp fs cs True k2 e' = (None, [], k2)"
        by (rule removed_outright)
    qed
    with kl show "life e' = life e - (case eff_type e of Ripple \<Rightarrow> 0.02 | Explosion \<Rightarrow> 0.03
                            | Text \<Rightarrow> 0.015 | Follow \<Rightarrow> 0.01) \<and>
      maxLife e' = maxLife e \<and> eff_type e' = eff_type e \<and> eff_text e' = eff_text e \<and>
      (0 < maxLife e \<and> life e' \<le> 0 \<longrightarrow>
         (\<forall>k2. render_effect rnd tp fs cs True k2 e' = (None, [], k2)))"
      by blast
  qed
  note 5 = render_ripple_kept [of e rnd tp fs cs k]
  note 6 = render_explosion_kept [of e rnd tp fs cs k]
  note 7 = render_text_kept [of e rnd tp fs cs k]
  note 8 = render_follow_kept [of e rnd tp fs cs k]
  note 9 = renderEffects_effects [of rnd fs cs True r k]
  note 10 = renderEffects_snoc
  show ?thesis
    apply (rule conjI, rule 1)
    apply (rule conjI, rule 2)
    apply (rule conjI, rule 3)
    apply (rule conjI, rule 4)
    apply (rule conjI, rule impI, erule conjE, erule (1) 5)
    apply (rule conjI, rule impI, erule conjE, erule (1) 6)
    apply (rule conjI, rule impI, (erule conjE)+, erule (2) 7)
    apply (rule conjI, rule impI, erule conjE, erule (1) 8)
    apply (rule conjI, rule 9)
    apply (rule 10)
    done
qed

theorem effect_expiry_by_fade_before_decrement_witness:
  "eff_type sample_ripple = Ripple \<and> \<not> jle (jdiv (life sample_ripple) (maxLife sample_ripple)) 0 \<and>
   render_effect rnd_zero ''#00ff00'' 24 Cs_en True 0 sample_ripple =
     (Some (sample_ripple\<lparr>life := life sample_ripple - 0.02,
                          radius := radius sample_ripple + 3\<rparr>),
      [Set_strokeStyle (Blend ''#00ff00'' (jdiv (life sample_ripple) (maxLife sample_ripple))),
       Set_lineWidth 2, BeginPath,
       Arc (eff_x sample_ripple) (eff_y sample_ripple) (radius sample_ripple + 3) 0 (pi * 2),
       Stroke], 0) \<and>
   0 < maxLife sample_ripple \<and> life sample_ripple - 0.02 \<le> 0 \<and>
   render_effect rnd_zero ''#00ff00'' 24 Cs_en True 0
     (sample_ripple\<lparr>life := life sample_ripple - 0.02, radius := radius sample_ripple + 3\<rparr>) =
     (None, [], 0)"
proof -
  have a: "eff_type sample_ripple = Ripple"
    "\<not> jle (jdiv (life sample_ripple) (maxLife sample_ripple)) 0"
    "0 < maxLife sample_ripple" "life sample_ripple - 0.02 \<le> 0"
    by (simp_all add: sample_ripple_def jdiv_def)
  note t = effect_expiry_by_fade_before_decrement
    [of rnd_zero "''#00ff00''" 24 Cs_en 0 sample_ripple]
  from t a(1,2) have run: "render_effect rnd_zero ''#00ff00'' 24 Cs_en True 0 sample_ripple =
     (Some (sample_ripple\<lparr>life := life sample_ripple - 0.02,
                          radius := radius sample_ripple + 3\<rparr>),
      [Set_strokeStyle (Blend ''#00ff00'' (jdiv (life sample_ripple) (maxLife sample_ripple))),
       Set_lineWidth 2, BeginPath,
       Arc (eff_x sample_ripple) (eff_y sample_ripple) (radius sample_ripple + 3) 0 (pi * 2),
       Stroke], 0)"
    by blast
  then have kept: "fst (render_effect rnd_zero ''#00ff00'' 24 Cs_en True 0 sample_ripple) =
     Some (sample_ripple\<lparr>life := life sample_ripple - 0.02,
                          radius := radius sample_ripple + 3\<rparr>)"
    by simp
  have "life (sample_ripple\<lparr>life := life sample_ripple - 0.02,
                          radius := radius sample_ripple + 3\<rparr>) \<le> 0"
    using a(4) by simp
  with t kept a(3) have "render_effect rnd_zero ''#00ff00'' 24 Cs_en True 0
     (sample_ripple\<lparr>life := life sample_ripple - 0.02, radius := radius sample_ripple + 3\<rparr>) =
     (None, [], 0)"
    by blast
  with run a show ?thesis by blast
qed


section \<open>Follower glyphs\<close>

text \<open>
  Claim C2, as stated, fails: with \<open>followerCount\<close> unset the fallback is 10, not 15.
  A follower effect with life 1 and no \<open>followerCount\<close> gets 10 \<open>fillText\<close> calls in one
  paused \<open>renderEffects\<close> call.
\<close>

theorem follower_unset_fifteen_counterexample:
  "count_fillText (fst (snd (renderEffects rnd_zero 24 Cs_bin False
      (\<lparr>effects = [sample_follow None], rendererTheme = Green\<rparr>, 0)))) = 10 \<and>
   count_fillText (fst (snd (renderEffects rnd_zero 24 Cs_bin False
      (\<lparr>effects = [sample_follow None], rendererTheme = Green\<rparr>, 0)))) \<noteq> 15"
proof -
  have "snd (render_effect rnd_zero ''#00ff00'' 24 Cs_bin False 0 (sample_follow None)) = 
     (concat (map (\<lambda>j. [Set_fillStyle (Blend ''#00ff00'' (jtimes (jdiv (life (sample_follow None)) (maxLife (sample_follow None))) (1 - real j / 10))),
                          FillText (getRandomChar (rnd_zero (0 + j)) Cs_bin)
                            (Num (eff_x (sample_follow None) + sin (real j) * 10))
                            (eff_y (sample_follow None) + real j * 15)]) [0..<10]), 0 + 10)"
    by (rule render_follow_ten) (simp_all add: sample_follow_def followerCount_or_10_def jdiv_def)
  then have "count_fillText (fst (snd (renderEffects rnd_zero 24 Cs_bin False
      (\<lparr>effects = [sample_follow None], rendererTheme = Green\<rparr>, 0)))) = 10"
    by (simp add: renderEffects_single split_beta count_fillText_glyphs del: upt_Suc)
  then show ?thesis by simp
qed

text \<open>
  Claim C2, amended. For a follower effect whose \<open>followerCount\<close> is unset, with
  \<open>alpha = life / maxLife\<close> read before the decrement of the tick: when \<open>alpha\<close> is not
  \<open>\<le> 0\<close> the draw makes exactly 10 glyphs, glyph \<open>j\<close> at
  \<open>(x + sin j * 10, y + j * 15)\<close> with fade \<open>alpha * (1 - j / 10)\<close> and a fresh random
  glyph; when \<open>alpha \<le> 0\<close> every glyph's fade is \<open>\<le> 0\<close> and all are skipped.
\<close>

theorem follower_unset_draws_ten_glyphs:
  assumes "eff_type e = Follow" and "followerCount e = None"
  shows "(\<not> jle (jdiv (life e) (maxLife e)) 0 \<longrightarrow>
            snd (render_effect rnd tp fs cs anim k e) =
              (concat (map (\<lambda>j. [Set_fillStyle
                                    (Blend tp (jtimes (jdiv (life e) (maxLife e)) (1 - real j / 10))),
                                  FillText (getRandomChar (rnd (k + j)) cs)
                                    (Num (eff_x e + sin (real j) * 10))
                                    (eff_y e + real j * 15)]) [0..<10]), k + 10)) \<and>
         (jle (jdiv (life e) (maxLife e)) 0 \<longrightarrow>
            snd (render_effect rnd tp fs cs anim k e) = ([], k))"
proof -
  from assms(2) have "followerCount_or_10 e = 10" by (simp add: followerCount_or_10_def)
  with assms(1) show ?thesis
    using render_follow_ten [of e rnd tp fs cs anim k] render_follow_none [of e rnd tp fs cs anim k]
    by blast
qed

theorem follower_unset_draws_ten_glyphs_witness:
  "eff_type (sample_follow None) = Follow \<and> followerCount (sample_follow None) = None \<and>
   \<not> jle (jdiv (life (sample_follow None)) (maxLife (sample_follow None))) 0 \<and>
   count_fillText (fst (snd (render_effect rnd_zero ''#00ff00'' 24 Cs_bin False 0
     (sample_follow None)))) = 10 \<and>
   jle (jdiv (life ((sample_follow None)\<lparr>life := 0\<rparr>)) (maxLife ((sample_follow None)\<lparr>life := 0\<rparr>))) 0 \<and>
   snd (render_effect rnd_zero ''#00ff00'' 24 Cs_bin False 0 ((sample_follow None)\<lparr>life := 0\<rparr>))
     = ([], 0)"
proof -
  have a: "eff_type (sample_follow None) = Follow" "followerCount (sample_follow None) = None"
    "\<not> jle (jdiv (life (sample_follow None)) (maxLife (sample_follow None))) 0"
    by (simp_all add: sample_follow_def jdiv_def)
  have b: "eff_type ((sample_follow None)\<lparr>life := 0\<rparr>) = Follow"
    "followerCount ((sample_follow None)\<lparr>life := 0\<rparr>) = None"
    "jle (jdiv (life ((sample_follow None)\<lparr>life := 0\<rparr>)) (maxLife ((sample_follow None)\<lparr>life := 0\<rparr>))) 0"
    by (simp_all add: sample_follow_def jdiv_def)
  from follower_unset_draws_ten_glyphs [OF a(1,2), of rnd_zero "''#00ff00''" 24 Cs_bin False 0] a(3)
  have "count_fillText (fst (snd (render_effect rnd_zero ''#00ff00'' 24 Cs_bin False 0
     (sample_follow None)))) = 10"
    by (simp add: count_fillText_glyphs del: upt_Suc)
  moreover
  from follower_unset_draws_ten_glyphs [OF b(1,2), of rnd_zero "''#00ff00''" 24 Cs_bin False 0] b(3)
  have "snd (render_effect rnd_zero ''#00ff00'' 24 Cs_bin False 0 ((sample_follow None)\<lparr>life := 0\<rparr>))
     = ([], 0)"
    by blast
  ultimately show ?thesis using a b(3) by blast
qed

text \<open>
  Claim C10, as stated, fails: a follower effect with \<open>followerCount = 0\<close> is drawn
  with zero glyphs on some draw calls. An animating tick takes such an effect from life
  0.01 to life 0 and keeps it; a paused \<open>renderEffects\<close> call then keeps it again and
  makes no \<open>fillText\<close> call for it.
\<close>

theorem follower_zero_count_every_draw_counterexample:
  "fst (renderEffects rnd_zero 24 Cs_bin True
      (\<lparr>effects = [(sample_follow (Some 0))\<lparr>life := 1 / 100\<rparr>], rendererTheme = Green\<rparr>, 0)) =
     \<lparr>effects = [(sample_follow (Some 0))\<lparr>life := 0\<rparr>], rendererTheme = Green\<rparr> \<and>
   renderEffects rnd_zero 24 Cs_bin False
      (\<lparr>effects = [(sample_follow (Some 0))\<lparr>life := 0\<rparr>], rendererTheme = Green\<rparr>, 0) =
     (\<lparr>effects = [(sample_follow (Some 0))\<lparr>life := 0\<rparr>], rendererTheme = Green\<rparr>, [], 0) \<and>
   count_fillText (fst (snd (renderEffects rnd_zero 24 Cs_bin False
      (\<lparr>effects = [(sample_follow (Some 0))\<lparr>life := 0\<rparr>], rendererTheme = Green\<rparr>, 0)))) = 0"
proof -
  let ?e = "(sample_follow (Some 0))\<lparr>life := 0\<rparr>"
  have "jle (jdiv (life ?e) (maxLife ?e)) 0"
    by (simp add: sample_follow_def jdiv_def)
  then have "follower_loop rnd_zero ''#00ff00'' Cs_bin (jdiv (life ?e) (maxLife ?e)) 10 ?e
      (nat \<lceil>10::real\<rceil>) 0 0 = ([], 0)"
    by (rule follower_no_glyphs)
  then have paused: "render_effect rnd_zero ''#00ff00'' 24 Cs_bin False 0 ?e = (Some ?e, [], 0)"
    by (simp add: render_effect_def Let_def sample_follow_def followerCount_or_10_def)
  have "fst (render_effect rnd_zero ''#00ff00'' 24 Cs_bin True 0
      ((sample_follow (Some 0))\<lparr>life := 1 / 100\<rparr>)) = Some ?e"
    by (simp add: render_effect_def Let_def sample_follow_def jdiv_def split_beta)
  with paused show ?thesis
    by (simp add: renderEffects_single split_beta)
qed

text \<open>
  Claim C10, amended. A follower effect whose \<open>followerCount\<close> is 0 is drawn exactly as
  one whose \<open>followerCount\<close> is unset (same drawing calls, same random draws). With
  \<open>alpha = life / maxLife\<close> read before the decrement of the tick: when \<open>alpha\<close> is not
  \<open>\<le> 0\<close> the call draws the fallback number of glyphs, 10, not zero; when
  \<open>alpha \<le> 0\<close>, which a paused call meets on an effect whose life has run out, it
  draws no glyph and makes no random draw.
\<close>

theorem follower_zero_count_as_unset:
  assumes "eff_type e = Follow"
  shows "snd (render_effect rnd tp fs cs anim k (e\<lparr>followerCount := Some 0\<rparr>)) =
           snd (render_effect rnd tp fs cs anim k (e\<lparr>followerCount := None\<rparr>)) \<and>
         (\<not> jle (jdiv (life e) (maxLife e)) 0 \<longrightarrow>
            count_fillText (fst (snd (render_effect rnd tp fs cs anim k
              (e\<lparr>followerCount := Some 0\<rparr>)))) = 10) \<and>
         (jle (jdiv (life e) (maxLife e)) 0 \<longrightarrow>
            snd (render_effect rnd tp fs cs anim k (e\<lparr>followerCount := Some 0\<rparr>)) = ([], k))"
proof (cases "jle (jdiv (life e) (maxLife e)) 0")
  case True
  then show ?thesis
    using assms
      render_follow_none [of "e\<lparr>followerCount := Some 0\<rparr>" rnd tp fs cs anim k]
      render_follow_none [of "e\<lparr>followerCount := None\<rparr>" rnd tp fs cs anim k]
    by (simp add: followerCount_or_10_def)
next
  case False
  then show ?thesis
    using assms
      render_follow_ten [of "e\<lparr>followerCount := Some 0\<rparr>" rnd tp fs cs anim k]
      render_follow_ten [of "e\<lparr>followerCount := None\<rparr>" rnd tp fs cs anim k]
    by (simp add: followerCount_or_10_def count_fillText_glyphs del: upt_Suc)
qed

theorem follower_zero_count_as_unset_witness:
  "eff_type (sample_follow (Some 15)) = Follow \<and>
   \<not> jle (jdiv (life (sample_follow (Some 15))) (maxLife (sample_follow (Some 15)))) 0 \<and>
   count_fillText (fst (snd (render_effect rnd_zero ''#00ff00'' 24 Cs_bin True 0
     ((sample_follow (Some 15))\<lparr>followerCount := Some 0\<rparr>)))) = 10 \<and>
   jle (jdiv (life ((sample_follow (Some 15))\<lparr>life := 0\<rparr>))
             (maxLife ((sample_follow (Some 15))\<lparr>life := 0\<rparr>))) 0 \<and>
   snd (render_effect rnd_zero ''#00ff00'' 24 Cs_bin False 0
     ((sample_follow (Some 15))\<lparr>life := 0, followerCount := Some 0\<rparr>)) = ([], 0)"
proof -
  have a: "eff_type (sample_follow (Some 15)) = Follow"
    "\<not> jle (jdiv (life (sample_follow (Some 15))) (maxLife (sample_follow (Some 15)))) 0"
    by (simp_all add: sample_follow_def jdiv_def)
  have b: "eff_type ((sample_follow (Some 15))\<lparr>life := 0\<rparr>) = Follow"
    "jle (jdiv (life ((sample_follow (Some 15))\<lparr>life := 0\<rparr>))
             (maxLife ((sample_follow (Some 15))\<lparr>life := 0\<rparr>))) 0"
    by (simp_all add: sample_follow_def jdiv_def)
  from follower_zero_count_as_unset [OF a(1), of rnd_zero "''#00ff00''" 24 Cs_bin True 0] a(2)
  have 1: "count_fillText (fst (snd (render_effect rnd_zero ''#00ff00'' 24 Cs_bin True 0
     ((sample_follow (Some 15))\<lparr>followerCount := Some 0\<rparr>)))) = 10"
    by blast
  from follower_zero_count_as_unset [OF b(1), of rnd_zero "''#00ff00''" 24 Cs_bin False 0] b(2)
  have 2: "snd (render_effect rnd_zero ''#00ff00'' 24 Cs_bin False 0
     ((sample_follow (Some 15))\<lparr>life := 0, followerCount := Some 0\<rparr>)) = ([], 0)"
    by blast
  from a b(2) 1 2 show ?thesis by blast
qed

section \<open>Redrawing a paused frame\<close>

lemma follower_loop_blank:
  "map blank_text (fst (follower_loop rnd tp cs alpha fc e n j k)) =
   map blank_text (fst (follower_loop rnd2 tp cs alpha fc e n j k2))"
  by (induction n arbitrary: j k k2) (simp_all add: Let_def split_beta)

lemma render_effect_blank:
  "map blank_text (fst (snd (render_effect rnd tp fs cs False k e))) =
   map blank_text (fst (snd (render_effect rnd2 tp fs cs False k2 e)))"
  by (cases "eff_type e")
     (simp_all add: render_effect_def Let_def split_beta follower_loop_blank
        split: option.splits)

lemma renderEffects_loop_blank:
  "map blank_text (fst (snd (renderEffects_loop rnd tp fs cs False k es))) =
   map blank_text (fst (snd (renderEffects_loop rnd2 tp fs cs False k2 es)))"
proof (induction es arbitrary: k k2)
  case Nil
  show ?case by simp
next
  case (Cons e es)
  from Cons.IH render_effect_blank [of rnd tp fs cs k e rnd2 k2]
  show ?case by (simp add: split_beta)
qed

lemma renderEffects_blank:
  "map blank_text (fst (snd (renderEffects rnd fs cs False (r, k)))) =
   map blank_text (fst (snd (renderEffects rnd2 fs cs False (r, k2))))"
  by (simp add: renderEffects_def Let_def split_beta renderEffects_loop_blank)

lemma render_effect_still:
  assumes "eff_type e \<noteq> Follow"
  shows "render_effect rnd tp fs cs False k e =
     (Some e, fst (snd (render_effect rnd2 tp fs cs False k2 e)), k)"
  using assms
  by (cases "eff_type e")
     (simp_all add: render_effect_def Let_def split_beta particle_loop_still
        split: option.splits)

lemma renderEffects_loop_concat:
  assumes "Follow \<notin> eff_type ` set es"
  shows "renderEffects_loop rnd tp fs cs False k es =
     (es, concat (map (\<lambda>e. fst (snd (render_effect rnd0 tp fs cs False k0 e))) es), k)"
  using assms
proof (induction es)
  case Nil
  show ?case by simp
next
  case (Cons e es)
  then have e: "eff_type e \<noteq> Follow" and es: "Follow \<notin> eff_type ` set es" by auto
  note a = render_effect_still [OF e, of rnd tp fs cs k rnd0 k0]
  note c = Cons.IH [OF es]
  show ?case by (simp add: a c)
qed

lemma renderEffects_still:
  assumes "Follow \<notin> eff_type ` set (effects r)"
  shows "renderEffects rnd fs cs False (r, k) =
     (r, fst (snd (renderEffects rnd2 fs cs False (r, k2))), k)"
proof -
  from assms have nf: "Follow \<notin> eff_type ` set (rev (effects r))" by simp
  note a = renderEffects_loop_concat [OF nf, of rnd "primary (THEMES (rendererTheme r))" fs cs k rnd 0]
  note b = renderEffects_loop_concat [OF nf, of rnd2 "primary (THEMES (rendererTheme r))" fs cs k2 rnd 0]
  show ?thesis
    by (simp add: renderEffects_def Let_def a b)
qed

lemma valid_rnd_alt: "valid_random rnd_alt"
  by (simp add: valid_random_def rnd_alt_def)

text \<open>
  Claim C4, as stated, fails in its last clause: a frozen frame is not redrawn
  identically. A follower effect with one glyph, drawn by two paused \<open>renderEffects\<close>
  calls in a row with a random source that gives 0, then 1/2: the renderer is the same
  after each call, but the first call draws the glyph "0" and the second draws "1".
\<close>

theorem paused_redraw_identical_counterexample:
  "renderEffects rnd_alt 24 Cs_bin False
      (\<lparr>effects = [sample_follow (Some 1)], rendererTheme = Green\<rparr>, 0) =
     (\<lparr>effects = [sample_follow (Some 1)], rendererTheme = Green\<rparr>,
      [Set_fillStyle (Blend ''#00ff00'' (Num 1)), FillText (Some (map of_char ''0'')) (Num 100) 100],
      1) \<and>
   renderEffects rnd_alt 24 Cs_bin False
      (\<lparr>effects = [sample_follow (Some 1)], rendererTheme = Green\<rparr>, 1) =
     (\<lparr>effects = [sample_follow (Some 1)], rendererTheme = Green\<rparr>,
      [Set_fillStyle (Blend ''#00ff00'' (Num 1)), FillText (Some (map of_char ''1'')) (Num 100) 100],
      2) \<and>
   fst (snd (renderEffects rnd_alt 24 Cs_bin False
      (\<lparr>effects = [sample_follow (Some 1)], rendererTheme = Green\<rparr>, 0))) \<noteq>
   fst (snd (renderEffects rnd_alt 24 Cs_bin False
      (\<lparr>effects = [sample_follow (Some 1)], rendererTheme = Green\<rparr>, 1)))"
  by (simp add: renderEffects_single render_effect_def sample_follow_def followerCount_or_10_def
        jdiv_def rnd_alt_def getRandomChar_def Let_def)

lemma render_follow_still:
  assumes "eff_type e = Follow" and "\<not> jle (jdiv (life e) (maxLife e)) 0"
  shows "render_effect rnd tp fs cs False k e =
     (Some e,
      concat (map (\<lambda>j. [Set_fillStyle (Blend tp (jtimes (jdiv (life e) (maxLife e))
                                             (1 - real j / followerCount_or_10 e))),
                        FillText (getRandomChar (rnd (k + j)) cs)
                          (Num (eff_x e + sin (real j) * 10))
                          (eff_y e + real j * 15)]) [0..<nat \<lceil>followerCount_or_10 e\<rceil>]),
      k + nat \<lceil>followerCount_or_10 e\<rceil>)"
  using assms
  by (simp add: render_effect_def Let_def follower_glyphs [OF assms(2)] del: upt_Suc)

text \<open>
  Claim C4, amended. With \<open>isAnimating = false\<close> neither call changes any state:
  \<open>drawDrops\<close> returns the core as it was (every drop's position, glyph, trail, counter
  and speed), draws what the state alone determines and makes no random draw;
  \<open>renderEffects\<close> returns the renderer as it was (the same effects, with their life,
  radius and particles); and after any number \<open>n\<close> of paused frames the core and the
  effect collection are the ones before the first. The drawing calls of a paused
  \<open>renderEffects\<close> are the same for every random source and every number of earlier
  random draws once the glyph passed to each \<open>fillText\<close> is left out; and when the
  collection holds no follower effect they are the same altogether and no random draw
  is made. Only the glyphs of follower effects are drawn afresh in each frame: the
  paused round of a follower effect whose fade fraction is not \<open>\<le> 0\<close> takes one
  random glyph for each of its positions.
\<close>

theorem paused_calls_change_no_state:
  "drawDrops rnd canvasHeight False (c, k) = (c, concat (map (draw_drop c) (drops c)), k) \<and>
   fst (renderEffects rnd fontSz charset False (r, k)) = r \<and>
   (\<exists>k'. (paused_frame rnd canvasHeight fontSz charset ^^ n) (c, r, k) = (c, r, k')) \<and>
   map blank_text (fst (snd (renderEffects rnd fontSz charset False (r, k)))) =
     map blank_text (fst (snd (renderEffects rnd2 fontSz charset False (r, k2)))) \<and>
   (Follow \<notin> eff_type ` set (effects r) \<longrightarrow>
      renderEffects rnd fontSz charset False (r, k) =
        (r, fst (snd (renderEffects rnd2 fontSz charset False (r, k2))), k)) \<and>
   (eff_type e = Follow \<and> \<not> jle (jdiv (life e) (maxLife e)) 0 \<longrightarrow>
      render_effect rnd tp fontSz charset False k e =
        (Some e,
         concat (map (\<lambda>j. [Set_fillStyle (Blend tp (jtimes (jdiv (life e) (maxLife e))
                                                (1 - real j / followerCount_or_10 e))),
                           FillText (getRandomChar (rnd (k + j)) charset)
                             (Num (eff_x e + sin (real j) * 10))
                             (eff_y e + real j * 15)])
                   [0..<nat \<lceil>followerCount_or_10 e\<rceil>]),
         k + nat \<lceil>followerCount_or_10 e\<rceil>))"
proof -
  note 1 = drawDrops_paused
  note 2 = renderEffects_paused
  note 3 = paused_frames_fix
  note 4 = renderEffects_blank
  note 5 = renderEffects_still
  note 6 = render_follow_still
  show ?thesis
    apply (rule conjI, rule 1)
    apply (rule conjI, rule 2)
    apply (rule conjI, rule 3)
    apply (rule conjI, rule 4)
    apply (rule conjI, rule impI, erule 5)
    apply (rule impI, erule conjE, erule (1) 6)
    done
qed

theorem paused_calls_change_no_state_witness:
  "Follow \<notin> eff_type ` set (effects \<lparr>effects = [sample_ripple], rendererTheme = Green\<rparr>) \<and>
   renderEffects rnd_alt 24 Cs_en False (\<lparr>effects = [sample_ripple], rendererTheme = Green\<rparr>, 1) =
     (\<lparr>effects = [sample_ripple], rendererTheme = Green\<rparr>,
      fst (snd (renderEffects rnd_zero 24 Cs_en False
        (\<lparr>effects = [sample_ripple], rendererTheme = Green\<rparr>, 0))), 1) \<and>
   eff_type (sample_follow (Some 1)) = Follow \<and>
   \<not> jle (jdiv (life (sample_follow (Some 1))) (maxLife (sample_follow (Some 1)))) 0 \<and>
   render_effect rnd_alt ''#00ff00'' 24 Cs_en False 1 (sample_follow (Some 1)) =
     (Some (sample_follow (Some 1)),
      [Set_fillStyle (Blend ''#00ff00'' (Num 1)),
       FillText (getRandomChar (1 / 2) Cs_en) (Num 100) 100], 2)"
proof -
  have a: "Follow \<notin> eff_type ` set (effects \<lparr>effects = [sample_ripple], rendererTheme = Green\<rparr>)"
    by (simp add: sample_ripple_def)
  have b: "eff_type (sample_follow (Some 1)) = Follow"
    "\<not> jle (jdiv (life (sample_follow (Some 1))) (maxLife (sample_follow (Some 1)))) 0"
    by (simp_all add: sample_follow_def jdiv_def)
  note t = paused_calls_change_no_state [of rnd_alt 800 new_MatrixRainCore 1 24 Cs_en
      "\<lparr>effects = [sample_ripple], rendererTheme = Green\<rparr>" 0 rnd_zero 0
      "sample_follow (Some 1)" "''#00ff00''"]
  from t a have 1: "renderEffects rnd_alt 24 Cs_en False
      (\<lparr>effects = [sample_ripple], rendererTheme = Green\<rparr>, 1) =
     (\<lparr>effects = [sample_ripple], rendererTheme = Green\<rparr>,
      fst (snd (renderEffects rnd_zero 24 Cs_en False
        (\<lparr>effects = [sample_ripple], rendererTheme = Green\<rparr>, 0))), 1)"
    by blast
  from t b have "render_effect rnd_alt ''#00ff00'' 24 Cs_en False 1 (sample_follow (Some 1)) =
     (Some (sample_follow (Some 1)),
      concat (map (\<lambda>j. [Set_fillStyle (Blend ''#00ff00''
                           (jtimes (jdiv (life (sample_follow (Some 1)))
                                         (maxLife (sample_follow (Some 1))))
                              (1 - real j / followerCount_or_10 (sample_follow (Some 1))))),
                        FillText (getRandomChar (rnd_alt (1 + j)) Cs_en)
                          (Num (eff_x (sample_follow (Some 1)) + sin (real j) * 10))
                          (eff_y (sample_follow (Some 1)) + real j * 15)])
                [0..<nat \<lceil>followerCount_or_10 (sample_follow (Some 1))\<rceil>]),
      1 + nat \<lceil>followerCount_or_10 (sample_follow (Some 1))\<rceil>)"
    by blast
  then have 2: "render_effect rnd_alt ''#00ff00'' 24 Cs_en False 1 (sample_follow (Some 1)) =
     (Some (sample_follow (Some 1)),
      [Set_fillStyle (Blend ''#00ff00'' (Num 1)),
       FillText (getRandomChar (1 / 2) Cs_en) (Num 100) 100], 2)"
    by (simp add: sample_follow_def followerCount_or_10_def jdiv_def rnd_alt_def)
  from a 1 b 2 show ?thesis by blast
qed

section \<open>The click burst\<close>

lemma CHARSETS_nonempty: "0 < length (CHARSETS cs)"
  by (cases cs) simp_all

lemma getRandomChar_in_charset:
  assumes "0 \<le> r" and "r < 1"
  shows "\<exists>g\<in>set (CHARSETS cs). getRandomChar r cs = Some [g]"
proof -
  let ?n = "length (CHARSETS cs)"
  have n: "0 < real ?n" using CHARSETS_nonempty [of cs] by simp
  have lo: "0 \<le> \<lfloor>r * real ?n\<rfloor>" using assms(1) by simp
  have "r * real ?n < real ?n" using assms(2) n by simp
  then have hi: "\<lfloor>r * real ?n\<rfloor> < int ?n" by (simp add: floor_less_iff)
  then have "nat \<lfloor>r * real ?n\<rfloor> < ?n" using lo by linarith
  then have "CHARSETS cs ! nat \<lfloor>r * real ?n\<rfloor> \<in> set (CHARSETS cs)" by (rule nth_mem)
  with lo hi show ?thesis by (simp add: getRandomChar_def Let_def)
qed

lemma getRandomChar_valid:
  "valid_random rnd \<Longrightarrow> \<exists>g\<in>set (CHARSETS cs). getRandomChar (rnd k) cs = Some [g]"
  by (simp add: valid_random_def getRandomChar_in_charset)

lemma getRandomChar_bin:
  "valid_random rnd \<Longrightarrow>
     getRandomChar (rnd k) Cs_bin = Some (map of_char ''0'') \<or>
     getRandomChar (rnd k) Cs_bin = Some (map of_char ''1'')"
  using getRandomChar_valid [of rnd Cs_bin k] by auto




lemma valid_rnd_zero: "valid_random rnd_zero"
  by (simp add: valid_random_def rnd_zero_def)


section \<open>One round of drawDrops\<close>

lemma refresh_glyph_keeps:
  "drop_y (fst (refresh_glyph rnd c k d)) = drop_y d"
  "drop_speed (fst (refresh_glyph rnd c k d)) = drop_speed d"
  "trailLength (fst (refresh_glyph rnd c k d)) = trailLength d"
  "xIndex (fst (refresh_glyph rnd c k d)) = xIndex d"
  by (simp_all add: refresh_glyph_def Let_def)

lemma refresh_glyph_trail:
  "length (trail d) \<le> trailLength d \<Longrightarrow>
     length (trail (fst (refresh_glyph rnd c k d))) \<le> trailLength d"
  by (simp add: refresh_glyph_def Let_def)


lemma update_drop_keeps:
  "trailLength (fst (update_drop rnd c h k d)) = trailLength d"
  "xIndex (fst (update_drop rnd c h k d)) = xIndex d"
  by (simp_all add: update_drop_def split_beta Let_def respawn_def refresh_glyph_keeps)

lemma update_drop_trail:
  assumes "length (trail d) \<le> trailLength d"
  shows "length (trail (fst (update_drop rnd c h k d))) \<le> trailLength d"
  using refresh_glyph_trail [OF assms, of rnd c k]
  by (simp add: update_drop_def split_beta Let_def respawn_def)

lemma drawDrops_loop_length:
  "length (fst (drawDrops_loop rnd c h anim k ds)) = length ds"
  by (induction ds arbitrary: k) (simp_all add: split_beta Let_def)


lemma drawDrops_drops:
  "drops (fst (drawDrops rnd h anim (c, k))) = fst (drawDrops_loop rnd c h anim k (drops c))"
  by (simp add: drawDrops_def split_beta Let_def)




section \<open>updateConfig\<close>

lemma respeed_drops_length: "length (fst (respeed_drops rnd sp k ds)) = length ds"
  by (induction ds arbitrary: k) (simp_all add: split_beta Let_def)

lemma respeed_drops_nth:
  "i < length ds \<Longrightarrow>
     \<exists>ki. fst (respeed_drops rnd sp k ds) ! i = (ds ! i)\<lparr>drop_speed := (rnd ki * 2 + 1.5) * (sp / 100)\<rparr>"
proof (induction ds arbitrary: k i)
  case Nil
  then show ?case by simp
next
  case (Cons d ds)
  show ?case
  proof (cases i)
    case 0
    then show ?thesis by (auto simp: split_beta Let_def)
  next
    case (Suc j)
    with Cons.prems have "j < length ds" by simp
    from Cons.IH [OF this, of "Suc k"] Suc show ?thesis by (simp add: split_beta Let_def)
  qed
qed

lemma recharset_drops_length: "length (fst (recharset_drops rnd cs k ds)) = length ds"
  by (induction ds arbitrary: k) (simp_all add: split_beta Let_def)

lemma recharset_drops_nth:
  "i < length ds \<Longrightarrow>
     \<exists>ki. fst (recharset_drops rnd cs k ds) ! i =
       (ds ! i)\<lparr>currentChar := getRandomChar (rnd ki) cs,
                 trail := random_chars rnd (Suc ki) (trailLength (ds ! i)) cs,
                 updateCounter := updateInterval (ds ! i)\<rparr>"
proof (induction ds arbitrary: k i)
  case Nil
  then show ?case by simp
next
  case (Cons d ds)
  show ?case
  proof (cases i)
    case 0
    then show ?thesis by (auto simp: split_beta Let_def)
  next
    case (Suc j)
    with Cons.prems have "j < length ds" by simp
    from Cons.IH [OF this, of "Suc k + trailLength d"] Suc
    show ?thesis by (simp add: split_beta Let_def)
  qed
qed

lemma random_chars_length: "length (random_chars rnd k n cs) = n"
  by (simp add: random_chars_def)

lemma random_chars_valid:
  "valid_random rnd \<Longrightarrow> t \<in> set (random_chars rnd k n cs) \<Longrightarrow>
     \<exists>g\<in>set (CHARSETS cs). t = Some [g]"
  using getRandomChar_valid [of rnd cs] by (auto simp: random_chars_def)

lemma random_chars_bin:
  "valid_random rnd \<Longrightarrow> t \<in> set (random_chars rnd k n Cs_bin) \<Longrightarrow>
     t = Some (map of_char ''0'') \<or> t = Some (map of_char ''1'')"
  using getRandomChar_bin [of rnd] by (auto simp: random_chars_def)

text \<open>The drops before the charset branch of updateConfig runs.\<close>

lemma updateConfig_charset_drops:
  assumes "new_currentCharset config = Some key"
  shows "\<exists>ds k3. length ds = length (drops c) \<and>
           (\<forall>i < length ds. xIndex (ds ! i) = xIndex (drops c ! i) \<and>
                             drop_y (ds ! i) = drop_y (drops c ! i) \<and>
                             trailLength (ds ! i) = trailLength (drops c ! i) \<and>
                             updateInterval (ds ! i) = updateInterval (drops c ! i)) \<and>
           drops (fst (updateConfig rnd config (c, k))) = fst (recharset_drops rnd key k3 ds) \<and>
           currentCharset (fst (updateConfig rnd config (c, k))) = key"
proof (cases "new_speed config")
  case None
  with assms show ?thesis
    by (intro exI [of _ "drops c"] exI [of _ k])
       (simp add: updateConfig_def split_beta Let_def split: option.splits)
next
  case (Some v)
  let ?ds = "fst (respeed_drops rnd v k (drops c))"
  have "\<forall>i < length ?ds. xIndex (?ds ! i) = xIndex (drops c ! i) \<and>
                             drop_y (?ds ! i) = drop_y (drops c ! i) \<and>
                             trailLength (?ds ! i) = trailLength (drops c ! i) \<and>
                             updateInterval (?ds ! i) = updateInterval (drops c ! i)"
  proof (intro allI impI)
    fix i assume "i < length ?ds"
    then have "i < length (drops c)" by (simp add: respeed_drops_length)
    from respeed_drops_nth [OF this, of rnd v k]
    obtain ki where "?ds ! i = (drops c ! i)\<lparr>drop_speed := (rnd ki * 2 + 1.5) * (v / 100)\<rparr>" ..
    then show "xIndex (?ds ! i) = xIndex (drops c ! i) \<and>
                             drop_y (?ds ! i) = drop_y (drops c ! i) \<and>
                             trailLength (?ds ! i) = trailLength (drops c ! i) \<and>
                             updateInterval (?ds ! i) = updateInterval (drops c ! i)" by simp
  qed
  with Some assms show ?thesis
    by (intro exI [of _ ?ds] exI [of _ "snd (respeed_drops rnd v k (drops c))"])
       (simp add: updateConfig_def split_beta Let_def respeed_drops_length split: option.splits)
qed

text \<open>
  Claim C7. \<open>updateConfig\<close> with a \<open>currentCharset\<close> field sets the charset and, in
  the same call, gives every existing drop (same column, same position) a glyph of the
  new charset and a trail of \<open>trailLength\<close> glyphs of the new charset; for \<open>bin\<close> each
  of them is \<open>0\<close> or \<open>1\<close>. It sets \<open>updateCounter = updateInterval\<close>, so the glyph
  refresh of the next animating tick takes its refresh branch: it draws a random glyph
  and resets the counter to 0.
\<close>

theorem charset_change_regenerates_glyphs:
  assumes "valid_random rnd" and "new_currentCharset config = Some key"
  shows "currentCharset (fst (updateConfig rnd config (c, k))) = key \<and>
    length (drops (fst (updateConfig rnd config (c, k)))) = length (drops c) \<and>
    (\<forall>i < length (drops c).
       (let d = drops (fst (updateConfig rnd config (c, k))) ! i
        in xIndex d = xIndex (drops c ! i) \<and> drop_y d = drop_y (drops c ! i) \<and>
           (\<exists>g\<in>set (CHARSETS key). currentChar d = Some [g]) \<and>
           (\<forall>t\<in>set (trail d). \<exists>g\<in>set (CHARSETS key). t = Some [g]) \<and>
           length (trail d) = trailLength d \<and>
           (key = Cs_bin \<longrightarrow>
              (currentChar d = Some (map of_char ''0'') \<or>
               currentChar d = Some (map of_char ''1'')) \<and>
              (\<forall>t\<in>set (trail d). t = Some (map of_char ''0'') \<or>
                                 t = Some (map of_char ''1''))) \<and>
           updateCounter d = updateInterval d \<and>
           (\<forall>c' k'. snd (refresh_glyph rnd c' k' d) = Suc k' \<and>
                    updateCounter (fst (refresh_glyph rnd c' k' d)) = 0)))"
proof -
  let ?c' = "fst (updateConfig rnd config (c, k))"
  from updateConfig_charset_drops [OF assms(2), of c rnd k]
  obtain ds k3 where len: "length ds = length (drops c)"
    and same: "\<forall>i < length ds. xIndex (ds ! i) = xIndex (drops c ! i) \<and>
                             drop_y (ds ! i) = drop_y (drops c ! i) \<and>
                             trailLength (ds ! i) = trailLength (drops c ! i) \<and>
                             updateInterval (ds ! i) = updateInterval (drops c ! i)"
    and dr: "drops ?c' = fst (recharset_drops rnd key k3 ds)"
    and cs: "currentCharset ?c' = key"
    by blast
  have each: "xIndex (drops ?c' ! i) = xIndex (drops c ! i) \<and>
           drop_y (drops ?c' ! i) = drop_y (drops c ! i) \<and>
           (\<exists>g\<in>set (CHARSETS key). currentChar (drops ?c' ! i) = Some [g]) \<and>
           (\<forall>t\<in>set (trail (drops ?c' ! i)). \<exists>g\<in>set (CHARSETS key). t = Some [g]) \<and>
           length (trail (drops ?c' ! i)) = trailLength (drops ?c' ! i) \<and>
           (key = Cs_bin \<longrightarrow>
              (currentChar (drops ?c' ! i) = Some (map of_char ''0'') \<or>
               currentChar (drops ?c' ! i) = Some (map of_char ''1'')) \<and>
              (\<forall>t\<in>set (trail (drops ?c' ! i)). t = Some (map of_char ''0'') \<or>
                                 t = Some (map of_char ''1''))) \<and>
           updateCounter (drops ?c' ! i) = updateInterval (drops ?c' ! i) \<and>
           (\<forall>c' k'. snd (refresh_glyph rnd c' k' (drops ?c' ! i)) = Suc k' \<and>
                    updateCounter (fst (refresh_glyph rnd c' k' (drops ?c' ! i))) = 0)"
    if i: "i < length (drops c)" for i
  proof -
    from i len have "i < length ds" by simp
    from recharset_drops_nth [OF this, of rnd key k3] dr
    obtain ki where d: "drops ?c' ! i =
       (ds ! i)\<lparr>currentChar := getRandomChar (rnd ki) key,
                 trail := random_chars rnd (Suc ki) (trailLength (ds ! i)) key,
                 updateCounter := updateInterval (ds ! i)\<rparr>"
      by auto
    have 1: "xIndex (drops ?c' ! i) = xIndex (drops c ! i)"
      "drop_y (drops ?c' ! i) = drop_y (drops c ! i)"
      using d same \<open>i < length ds\<close> by simp_all
    have 2: "\<exists>g\<in>set (CHARSETS key). currentChar (drops ?c' ! i) = Some [g]"
      using d getRandomChar_valid [OF assms(1), of key ki] by simp
    have 3: "\<forall>t\<in>set (trail (drops ?c' ! i)). \<exists>g\<in>set (CHARSETS key). t = Some [g]"
      using d random_chars_valid [OF assms(1)] by simp
    have 4: "length (trail (drops ?c' ! i)) = trailLength (drops ?c' ! i)"
      using d by (simp add: random_chars_length)
    have 5: "key = Cs_bin \<longrightarrow>
              (currentChar (drops ?c' ! i) = Some (map of_char ''0'') \<or>
               currentChar (drops ?c' ! i) = Some (map of_char ''1'')) \<and>
              (\<forall>t\<in>set (trail (drops ?c' ! i)). t = Some (map of_char ''0'') \<or>
                                 t = Some (map of_char ''1''))"
    proof
      assume b: "key = Cs_bin"
      have "currentChar (drops ?c' ! i) = getRandomChar (rnd ki) Cs_bin"
        using d b by simp
      moreover have "trail (drops ?c' ! i) = random_chars rnd (Suc ki) (trailLength (ds ! i)) Cs_bin"
        using d b by simp
      ultimately show "(currentChar (drops ?c' ! i) = Some (map of_char ''0'') \<or>
               currentChar (drops ?c' ! i) = Some (map of_char ''1'')) \<and>
              (\<forall>t\<in>set (trail (drops ?c' ! i)). t = Some (map of_char ''0'') \<or>
                                 t = Some (map of_char ''1''))"
        using getRandomChar_bin [OF assms(1), of ki] random_chars_bin [OF assms(1)]
        by metis
    qed
    have 6: "updateCounter (drops ?c' ! i) = updateInterval (drops ?c' ! i)"
      using d by simp
    have 7: "\<forall>c' k'. snd (refresh_glyph rnd c' k' (drops ?c' ! i)) = Suc k' \<and>
                    updateCounter (fst (refresh_glyph rnd c' k' (drops ?c' ! i))) = 0"
      using 6 by (simp add: refresh_glyph_def Let_def)
    from 1 2 3 4 5 6 7 show ?thesis by blast
  qed
  have "length (drops ?c') = length (drops c)"
    using dr len by (simp add: recharset_drops_length)
  with cs each show ?thesis by (simp add: Let_def)
qed

theorem charset_change_regenerates_glyphs_witness:
  "valid_random rnd_zero \<and>
   new_currentCharset (no_update\<lparr>new_currentCharset := Some Cs_bin\<rparr>) = Some Cs_bin \<and>
   0 < length (drops sample_core) \<and>
   (currentChar (drops (fst (updateConfig rnd_zero
       (no_update\<lparr>new_currentCharset := Some Cs_bin\<rparr>) (sample_core, 0))) ! 0)
      = Some (map of_char ''0'') \<or>
    currentChar (drops (fst (updateConfig rnd_zero
       (no_update\<lparr>new_currentCharset := Some Cs_bin\<rparr>) (sample_core, 0))) ! 0)
      = Some (map of_char ''1'')) \<and>
   updateCounter (drops (fst (updateConfig rnd_zero
       (no_update\<lparr>new_currentCharset := Some Cs_bin\<rparr>) (sample_core, 0))) ! 0) =
   updateInterval (drops (fst (updateConfig rnd_zero
       (no_update\<lparr>new_currentCharset := Some Cs_bin\<rparr>) (sample_core, 0))) ! 0)"
proof -
  have a: "new_currentCharset (no_update\<lparr>new_currentCharset := Some Cs_bin\<rparr>) = Some Cs_bin"
    by simp
  have b: "0 < length (drops sample_core)" by (simp add: sample_core_def)
  from charset_change_regenerates_glyphs [OF valid_rnd_zero a, of sample_core 0] b
  show ?thesis using valid_rnd_zero a by (simp add: Let_def)
qed

section \<open>Rounding to binary64\<close>

lemma pow2_powr: "pow2 e = 2 powr of_int e"
proof (cases "0 \<le> e")
  case True
  then have "of_int e = real (nat e)" by simp
  then have "(2::real) powr of_int e = 2 powr real (nat e)" by (simp only:)
  also have "\<dots> = 2 ^ nat e" by (simp only: powr_realpow zero_less_numeral)
  finally show ?thesis using True by (simp only: pow2_def if_True)
next
  case False
  then have "of_int e = - real (nat (- e))" by simp
  then have "(2::real) powr of_int e = 2 powr (- real (nat (- e)))" by (simp only:)
  also have "\<dots> = 1 / 2 powr real (nat (- e))" by (simp only: powr_minus divide_inverse mult_1)
  also have "\<dots> = 1 / 2 ^ nat (- e)" by (simp only: powr_realpow zero_less_numeral)
  finally show ?thesis using False by (simp only: pow2_def if_False)
qed

lemma pow2_pos: "0 < pow2 e"
  by (simp add: pow2_powr)

lemma pow2_add: "pow2 (a + b) = pow2 a * pow2 b"
  by (simp add: pow2_powr powr_add)

lemma pow2_mono: "a \<le> b \<Longrightarrow> pow2 a \<le> pow2 b"
  by (simp add: pow2_powr)

lemma pow2_le_D: "pow2 a \<le> pow2 b \<Longrightarrow> a \<le> b"
  by (simp add: pow2_powr)

lemma pow2_nat: "pow2 (int j) = 2 ^ j"
  by (simp add: pow2_def)

lemma pow2_neg_nat: "0 \<le> 52 - e \<Longrightarrow> pow2 (e - 52) * 2 ^ nat (52 - e) = 1"
proof (cases "e = 52")
  case True
  then show ?thesis by (simp add: pow2_def)
next
  case False
  assume "0 \<le> 52 - e"
  with False have "e - 52 < 0" and "nat (- (e - 52)) = nat (52 - e)" by simp_all
  then show ?thesis by (simp add: pow2_def)
qed

lemma binade_bounds:
  assumes "0 < x"
  shows "pow2 \<lfloor>log 2 x\<rfloor> \<le> x" and "x < pow2 (\<lfloor>log 2 x\<rfloor> + 1)"
  using assms floor_log_eq_powr_iff [of x 2 "\<lfloor>log 2 x\<rfloor>"] by (simp_all add: pow2_powr)

lemma binade_eq:
  assumes "0 < x" and "pow2 e \<le> x" and "x < pow2 (e + 1)"
  shows "\<lfloor>log 2 x\<rfloor> = e"
  using assms floor_log_eq_powr_iff [of x 2 e] by (simp add: pow2_powr)

lemma round_even_le: "r \<le> of_int m \<Longrightarrow> round_even r \<le> m"
proof -
  assume a: "r \<le> of_int m"
  have f: "\<lfloor>r\<rfloor> \<le> m" using a by linarith
  show ?thesis
  proof (cases "r = of_int \<lfloor>r\<rfloor>")
    case True
    then have "r - of_int \<lfloor>r\<rfloor> < 1 / 2" by simp
    with f show ?thesis by (simp add: round_even_def Let_def)
  next
    case False
    then have "of_int \<lfloor>r\<rfloor> < r" using of_int_floor_le [of r] by linarith
    with a have "\<lfloor>r\<rfloor> < m" by linarith
    then show ?thesis by (simp add: round_even_def Let_def)
  qed
qed

lemma round_even_ge: "of_int m \<le> r \<Longrightarrow> m \<le> round_even r"
proof -
  assume "of_int m \<le> r"
  then have "m \<le> \<lfloor>r\<rfloor>" by (simp add: le_floor_iff)
  then show ?thesis by (simp add: round_even_def Let_def)
qed

lemma fl_unfold:
  "x \<noteq> 0 \<Longrightarrow>
     fl x = pow2 (binade x - 52) * of_int (round_even (x / pow2 (binade x - 52)))"
  by (simp add: fl_def Let_def)

lemma binade_normal:
  assumes "0 < x" and "pow2 e \<le> x" and "x < pow2 (e + 1)" and "- 1022 \<le> e"
  shows "binade x = e"
  using binade_eq [OF assms(1,2,3)] assms(1,4) by (simp add: binade_def)

lemma fl_eq:
  assumes "0 < x" and "pow2 e \<le> x" and "x < pow2 (e + 1)" and "- 1022 \<le> e"
  shows "fl x = pow2 (e - 52) * of_int (round_even (x / pow2 (e - 52)))"
  using fl_unfold [of x] binade_normal [OF assms] assms(1) by simp



lemma fl_nonneg:
  assumes "0 \<le> x"
  shows "0 \<le> fl x"
proof (cases "x = 0")
  case True
  then show ?thesis by (simp add: fl_def)
next
  case False
  let ?u = "pow2 (binade x - 52)"
  have u: "0 < ?u" by (rule pow2_pos)
  with assms have "of_int 0 \<le> x / ?u" by simp
  then have "0 \<le> round_even (x / ?u)" by (rule round_even_ge)
  with u False show ?thesis by (simp add: fl_unfold)
qed

lemma binade_le_52:
  assumes "0 < x" and "x \<le> of_int n" and "n \<le> 2 ^ 52"
  shows "binade x \<le> 52"
proof -
  have "pow2 \<lfloor>log 2 x\<rfloor> \<le> x" by (rule binade_bounds(1) [OF assms(1)])
  also have "x \<le> of_int n" by (rule assms(2))
  also have "(of_int n :: real) \<le> of_int (2 ^ 52)" using assms(3) by (simp only: of_int_le_iff)
  also have "(of_int (2 ^ 52) :: real) = pow2 52" by (simp add: pow2_def)
  finally have "\<lfloor>log 2 x\<rfloor> \<le> 52" by (rule pow2_le_D)
  then show ?thesis using assms(1) by (simp add: binade_def)
qed

lemma fl_le_int:
  assumes "0 \<le> x" and "x \<le> of_int n" and "n \<le> 2 ^ 52"
  shows "fl x \<le> of_int n"
proof (cases "x = 0")
  case True
  with assms(2) show ?thesis by (simp add: fl_def)
next
  case False
  with assms(1) have x: "0 < x" by simp
  define u where "u = pow2 (binade x - 52)"
  define j where "j = nat (52 - binade x)"
  have u: "0 < u" unfolding u_def by (rule pow2_pos)
  have "binade x \<le> 52" by (rule binade_le_52 [OF x assms(2,3)])
  then have uj: "u * 2 ^ j = 1" unfolding u_def j_def by (simp add: pow2_neg_nat)
  then have inv: "1 / u = 2 ^ j" using u by (simp add: field_simps)
  have "x / u \<le> of_int n / u" using assms(2) u by (simp add: divide_right_mono)
  also have "of_int n / u = of_int n * (1 / u)" by simp
  also have "\<dots> = of_int (n * 2 ^ j)" unfolding inv by simp
  finally have "round_even (x / u) \<le> n * 2 ^ j" by (rule round_even_le)
  then have "(of_int (round_even (x / u)) :: real) \<le> of_int (n * 2 ^ j)"
    by (simp only: of_int_le_iff)
  then have "u * of_int (round_even (x / u)) \<le> u * of_int (n * 2 ^ j)"
    using u by (simp only: mult_le_cancel_left_pos)
  also have "u * of_int (n * 2 ^ j) = of_int n * (u * 2 ^ j)" by simp
  also have "\<dots> = of_int n" unfolding uj by simp
  finally show ?thesis unfolding u_def by (simp only: fl_unfold [OF False])
qed

text \<open>The scaled value lies at or above \<open>2 ^ 52\<close>.\<close>

lemma scaled_ge:
  assumes "0 < x"
  shows "2 ^ 52 \<le> x / pow2 (\<lfloor>log 2 x\<rfloor> - 52)"
proof -
  let ?e = "\<lfloor>log 2 x\<rfloor>"
  have "pow2 (?e - 52) * pow2 52 = pow2 (?e - 52 + 52)" by (rule pow2_add [symmetric])
  also have "\<dots> = pow2 ?e" by simp
  also have "\<dots> \<le> x" by (rule binade_bounds(1) [OF assms])
  finally have "pow2 52 \<le> x / pow2 (?e - 52)"
    using pow2_pos [of "?e - 52"] by (simp add: pos_le_divide_eq mult.commute)
  then show ?thesis by (simp add: pow2_def)
qed

lemma fl_ge_int:
  assumes "0 < n" and "of_int n \<le> x" and "n \<le> 2 ^ 52"
  shows "of_int n \<le> fl x"
proof -
  define u where "u = pow2 (binade x - 52)"
  define j where "j = nat (52 - binade x)"
  have x: "0 < x"
  proof -
    have "(0::real) < of_int n" using assms(1) by simp
    with assms(2) show ?thesis by linarith
  qed
  then have x0: "x \<noteq> 0" by simp
  have u: "0 < u" unfolding u_def by (rule pow2_pos)
  have flx: "fl x = u * of_int (round_even (x / u))"
    unfolding u_def by (rule fl_unfold [OF x0])
  show ?thesis
  proof (cases "binade x \<le> 52")
    case True
    then have uj: "u * 2 ^ j = 1" unfolding u_def j_def by (simp add: pow2_neg_nat)
    then have inv: "1 / u = 2 ^ j" using u by (simp add: field_simps)
    have "(of_int (n * 2 ^ j) :: real) = of_int n * (1 / u)" unfolding inv by simp
    also have "\<dots> = of_int n / u" by simp
    also have "\<dots> \<le> x / u" using assms(2) u by (simp add: divide_right_mono)
    finally have "n * 2 ^ j \<le> round_even (x / u)" by (rule round_even_ge)
    then have "(of_int (n * 2 ^ j) :: real) \<le> of_int (round_even (x / u))"
      by (simp only: of_int_le_iff)
    then have "u * of_int (n * 2 ^ j) \<le> u * of_int (round_even (x / u))"
      using u by (simp only: mult_le_cancel_left_pos)
    moreover have "u * of_int (n * 2 ^ j) = of_int n * (u * 2 ^ j)" by simp
    moreover have "of_int n * (u * 2 ^ j) = (of_int n :: real)" unfolding uj by simp
    ultimately show ?thesis using flx by linarith
  next
    case False
    then have b: "binade x = \<lfloor>log 2 x\<rfloor>" using x by (simp add: binade_def max_def split: if_splits)
    from False have "53 \<le> binade x" by simp
    then have big: "pow2 53 \<le> pow2 (binade x)" by (rule pow2_mono)
    from scaled_ge [OF x] have "of_int (2 ^ 52) \<le> x / u" unfolding u_def b by simp
    then have "2 ^ 52 \<le> round_even (x / u)" by (rule round_even_ge)
    then have "(of_int (2 ^ 52) :: real) \<le> of_int (round_even (x / u))"
      by (simp only: of_int_le_iff)
    then have "u * of_int (2 ^ 52) \<le> u * of_int (round_even (x / u))"
      using u by (simp only: mult_le_cancel_left_pos)
    moreover have "u * of_int (2 ^ 52) = pow2 (binade x)"
    proof -
      have "pow2 (binade x - 52) * pow2 52 = pow2 (binade x - 52 + 52)"
        by (rule pow2_add [symmetric])
      then show ?thesis unfolding u_def by (simp add: pow2_def)
    qed
    moreover have "(of_int n :: real) \<le> of_int (2 ^ 52)" using assms(3) by (simp only: of_int_le_iff)
    moreover have "(of_int (2 ^ 52) :: real) \<le> pow2 53" by (simp add: pow2_def)
    ultimately show ?thesis using flx big by linarith
  qed
qed

lemma fl_int: "0 \<le> n \<Longrightarrow> n \<le> 2 ^ 52 \<Longrightarrow> fl (of_int n) = of_int n"
proof (cases "n = 0")
  case True
  then show ?thesis by (simp add: fl_def)
next
  case False
  assume "0 \<le> n" and "n \<le> 2 ^ 52"
  with False fl_le_int [of "of_int n" n] fl_ge_int [of n "of_int n"] show ?thesis by simp
qed




lemma fl_125_3: "fl (125 / 3) = 5864062014805333 / 2 ^ 47"
proof -
  have "fl (125 / 3) = pow2 (5 - 52) * of_int (round_even ((125 / 3) / pow2 (5 - 52)))"
    by (rule fl_eq) (simp_all add: pow2_def)
  moreover have "pow2 (5 - 52) = 1 / 2 ^ 47" by (simp add: pow2_def)
  moreover have "round_even ((125 / 3) / (1 / 2 ^ 47)) = 5864062014805333"
    by (simp add: round_even_def Let_def)
  ultimately have "fl (125 / 3) = 1 / 2 ^ 47 * of_int 5864062014805333"
    by (simp only:)
  then show ?thesis by simp
qed



section \<open>initDrops\<close>







lemma make_drops_xIndex: "map xIndex (fst (make_drops rnd c w k sel)) = sel"
  by (induction sel arbitrary: k) (simp_all add: split_beta Let_def)

lemma make_drops_fresh:
  "d \<in> set (fst (make_drops rnd c w k sel)) \<Longrightarrow> trail d = [] \<and> trailLength d = 8"
  by (induction sel arbitrary: k) (auto simp: split_beta Let_def)

lemma prefill_trails_xIndex:
  "map xIndex (fst (prefill_trails rnd cs k ds)) = map xIndex ds"
  by (induction ds arbitrary: k) (simp_all add: split_beta Let_def)

lemma prefill_trails_full:
  "\<forall>d\<in>set ds. trail d = [] \<and> trailLength d = 8 \<Longrightarrow>
     d' \<in> set (fst (prefill_trails rnd cs k ds)) \<Longrightarrow>
     length (trail d') = 8 \<and> trailLength d' = 8"
  by (induction ds arbitrary: k) (auto simp: split_beta Let_def random_chars_length)

text \<open>
  When the rounded quotient and product are within the range of an array length, the
  two counts are finite and the call returns.
\<close>

lemma pow2_1024_big: "4294967296 < pow2 1024"
  by (simp add: pow2_def)

lemma jfl_finite: "0 \<le> fl x \<Longrightarrow> fl x < pow2 1024 \<Longrightarrow> jfl x = Num (fl x)"
  by (simp add: jfl_def)

lemma jfl_small: "0 \<le> fl x \<Longrightarrow> fl x \<le> 4294967296 \<Longrightarrow> jfl x = Num (fl x)"
  using pow2_1024_big by (simp add: jfl_def)


lemma ceiling_bound:
  fixes a :: real
  shows "\<lceil>a\<rceil> \<le> 4294967295 \<longleftrightarrow> a \<le> 4294967295"
  by (simp add: ceiling_le_iff)

lemma floor_bound:
  fixes a :: real
  shows "\<lfloor>a\<rfloor> \<le> 4294967295 \<longleftrightarrow> a < 4294967296"
proof -
  have "\<lfloor>a\<rfloor> \<le> 4294967295 \<longleftrightarrow> \<lfloor>a\<rfloor> < 4294967296" by linarith
  also have "\<dots> \<longleftrightarrow> a < 4294967296" by (simp add: floor_less_iff)
  finally show ?thesis .
qed

lemma columns_finite:
  assumes "0 < fontSize c" and "0 \<le> w" and "\<lceil>fl (w / fontSize c)\<rceil> \<le> 4294967295"
  shows "columns_of c w = Num (of_int \<lceil>fl (w / fontSize c)\<rceil>)"
proof -
  from assms(1,2) have "0 \<le> w / fontSize c" by simp
  then have "0 \<le> fl (w / fontSize c)" by (rule fl_nonneg)
  moreover from assms(3) have "fl (w / fontSize c) \<le> 4294967296"
    by (simp add: ceiling_bound)
  ultimately have "jfl (w / fontSize c) = Num (fl (w / fontSize c))" by (rule jfl_small)
  with assms(1) show ?thesis by (simp add: columns_of_def jdiv_def)
qed

lemma actualColumns_finite:
  assumes "0 < fontSize c" and "0 \<le> w" and "0 \<le> density c"
    and "\<lceil>fl (w / fontSize c)\<rceil> \<le> 4294967295"
    and "fl (density c / 100) < pow2 1024"
    and "\<lfloor>fl (of_int \<lceil>fl (w / fontSize c)\<rceil> * fl (density c / 100))\<rfloor> \<le> 4294967295"
  shows "actualColumns_of c w =
     Num (of_int (max 1 \<lfloor>fl (of_int \<lceil>fl (w / fontSize c)\<rceil> * fl (density c / 100))\<rfloor>))"
proof -
  define cols where "cols = \<lceil>fl (w / fontSize c)\<rceil>"
  define r where "r = fl (density c / 100)"
  from assms(1,2) have "0 \<le> w / fontSize c" by simp
  then have "0 \<le> fl (w / fontSize c)" by (rule fl_nonneg)
  then have c0: "0 \<le> cols" unfolding cols_def by linarith
  from assms(3) have "0 \<le> density c / 100" by simp
  then have r0: "0 \<le> r" unfolding r_def by (rule fl_nonneg)
  have jr: "jfl (density c / 100) = Num r"
    using r0 assms(5) unfolding r_def by (intro jfl_finite)
  from c0 r0 have "0 \<le> of_int cols * r" by simp
  then have "0 \<le> fl (of_int cols * r)" by (rule fl_nonneg)
  moreover from assms(6) have "fl (of_int cols * r) \<le> 4294967296"
    unfolding cols_def r_def by (simp add: floor_bound)
  ultimately have jp: "jfl (of_int cols * r) = Num (fl (of_int cols * r))" by (rule jfl_small)
  have "columns_of c w = Num (of_int cols)"
    unfolding cols_def by (rule columns_finite [OF assms(1,2,4)])
  then have "actualColumns_of c w = Num (max 1 (of_int \<lfloor>fl (of_int cols * r)\<rfloor>))"
    by (simp add: actualColumns_of_def jr jp)
  also have "max (1::real) (of_int \<lfloor>fl (of_int cols * r)\<rfloor>) =
      of_int (max 1 \<lfloor>fl (of_int cols * r)\<rfloor>)"
    by (simp add: max_def)
  finally show ?thesis unfolding cols_def r_def .
qed

lemma initDrops_returns:
  assumes "columns_of c w = Num (of_int cols)" and "actualColumns_of c w = Num (of_int act)"
    and "cols \<le> 4294967295" and "act \<le> 4294967295"
  shows "\<exists>ds k'. initDrops rnd w (c, k) = Inr (c\<lparr>drops := ds\<rparr>, k') \<and>
     map xIndex ds = select_indices rnd k (nat act) [0..<nat cols] \<and>
     (\<forall>d\<in>set ds. length (trail d) = 8 \<and> trailLength d = 8)"
proof -
  let ?n = "nat act"
  let ?sel = "select_indices rnd k ?n [0..<nat cols]"
  let ?made = "make_drops rnd c w (k + ?n) ?sel"
  let ?filled = "prefill_trails rnd (currentCharset c) (snd ?made) (fst ?made)"
  from assms(3) have a: "\<not> (4294967296 \<le> (of_int cols :: real))" by linarith
  from assms(4) have b: "\<not> (4294967295 < (of_int act :: real))" by linarith
  have "array_from_length (columns_of c w) = Inr [0..<nat cols]"
    unfolding assms(1) using a by simp
  moreover have "loop_rounds (actualColumns_of c w) = Inr (nat act)"
    unfolding assms(2) using b by simp
  ultimately have "initDrops rnd w (c, k) = Inr (c\<lparr>drops := fst ?filled\<rparr>, snd ?filled)"
    by (simp add: initDrops_def Let_def split_beta)
  moreover have "map xIndex (fst ?filled) = ?sel"
    by (simp add: prefill_trails_xIndex make_drops_xIndex)
  moreover have "\<forall>d\<in>set (fst ?filled). length (trail d) = 8 \<and> trailLength d = 8"
    using prefill_trails_full [of "fst ?made" _ rnd "currentCharset c" "snd ?made"]
      make_drops_fresh [of _ rnd c w "k + ?n" ?sel]
    by blast
  ultimately show ?thesis by blast
qed



text \<open>The counts of the inputs used below.\<close>

lemma counts_default_1000:
  "\<lceil>fl (1000 / fontSize new_MatrixRainCore)\<rceil> = 42"
  "\<lfloor>fl (of_int \<lceil>fl (1000 / fontSize new_MatrixRainCore)\<rceil> *
        fl (density new_MatrixRainCore / 100))\<rfloor> = 42"
proof -
  show a: "\<lceil>fl (1000 / fontSize new_MatrixRainCore)\<rceil> = 42"
    by (simp add: new_MatrixRainCore_def fl_125_3)
  have r: "fl (density new_MatrixRainCore / 100) = 1"
    using fl_int [of 1] by (simp add: new_MatrixRainCore_def)
  have "fl 42 = 42" using fl_int [of 42] by simp
  then show "\<lfloor>fl (of_int \<lceil>fl (1000 / fontSize new_MatrixRainCore)\<rceil> *
        fl (density new_MatrixRainCore / 100))\<rfloor> = 42"
    unfolding a r by simp
qed





lemma pow2_1024_above_2: "2 < pow2 1024"
  using pow2_1024_big by linarith

section \<open>Column selection\<close>







section \<open>Density above 100\<close>




section \<open>The trail bound\<close>

lemma initDrops_trails:
  assumes "initDrops rnd w (c, k) = Inr (c', k')" and "d \<in> set (drops c')"
  shows "trail_bounded d"
proof -
  from assms(1) obtain sel kk where dr:
    "drops c' = fst (prefill_trails rnd (currentCharset c) (snd (make_drops rnd c w kk sel))
                      (fst (make_drops rnd c w kk sel)))"
    by (auto simp: initDrops_def split_beta Let_def split: sum.splits)
  have fresh: "\<forall>x\<in>set (fst (make_drops rnd c w kk sel)). trail x = [] \<and> trailLength x = 8"
    using make_drops_fresh by blast
  from assms(2) dr have "d \<in> set (fst (prefill_trails rnd (currentCharset c)
      (snd (make_drops rnd c w kk sel)) (fst (make_drops rnd c w kk sel))))" by simp
  from prefill_trails_full [OF fresh this] show ?thesis by (simp add: trail_bounded_def)
qed

lemma update_drop_bounded:
  assumes "trail_bounded d"
  shows "trail_bounded (fst (update_drop rnd c h k d))"
proof -
  from assms have "length (trail d) \<le> trailLength d" and "trailLength d = 8"
    by (simp_all add: trail_bounded_def)
  with update_drop_trail [of d rnd c h k] update_drop_keeps(1) [of rnd c h k d]
  show ?thesis by (simp add: trail_bounded_def)
qed

lemma drawDrops_loop_bounded:
  assumes "\<forall>d\<in>set ds. trail_bounded d"
    and "d' \<in> set (fst (drawDrops_loop rnd c h anim k ds))"
  shows "trail_bounded d'"
  using assms
proof (induction ds arbitrary: k)
  case Nil
  then show ?case by simp
next
  case (Cons d ds)
  let ?step = "if anim then update_drop rnd c h k d else (d, k)"
  from Cons.prems(1) have d: "trail_bounded d" and rest: "\<forall>d\<in>set ds. trail_bounded d"
    by simp_all
  from Cons.prems(2) have "d' = fst ?step \<or>
      d' \<in> set (fst (drawDrops_loop rnd c h anim (snd ?step) ds))"
    by (simp add: split_beta Let_def)
  then show ?case
  proof
    assume "d' = fst ?step"
    with d update_drop_bounded [OF d, of rnd c h k] show ?thesis by (cases anim) simp_all
  next
    assume "d' \<in> set (fst (drawDrops_loop rnd c h anim (snd ?step) ds))"
    with Cons.IH [OF rest] show ?thesis by blast
  qed
qed

lemma respeed_bounded: "trail_bounded d \<Longrightarrow> trail_bounded (d\<lparr>drop_speed := v\<rparr>)"
  by (simp add: trail_bounded_def)

lemma respeed_drops_bounded:
  assumes "\<forall>d\<in>set ds. trail_bounded d"
    and "d' \<in> set (fst (respeed_drops rnd sp k ds))"
  shows "trail_bounded d'"
  using assms
  by (induction ds arbitrary: k) (auto simp: split_beta Let_def respeed_bounded)

lemma recharset_bounded:
  "trail_bounded d \<Longrightarrow>
     trail_bounded (d\<lparr>currentChar := g, trail := random_chars rnd k (trailLength d) cs,
                      updateCounter := n\<rparr>)"
  by (simp add: trail_bounded_def random_chars_length)

lemma recharset_drops_bounded:
  assumes "\<forall>d\<in>set ds. trail_bounded d"
    and "d' \<in> set (fst (recharset_drops rnd cs k ds))"
  shows "trail_bounded d'"
  using assms
  by (induction ds arbitrary: k) (auto simp: split_beta Let_def recharset_bounded)

lemma updateConfig_bounded:
  assumes "\<forall>d\<in>set (drops c). trail_bounded d"
    and "d' \<in> set (drops (fst (updateConfig rnd config (c, k))))"
  shows "trail_bounded d'"
proof -
  let ?c3 = "case new_speed config of None \<Rightarrow> drops c
             | Some v \<Rightarrow> fst (respeed_drops rnd v k (drops c))"
  have c3: "\<forall>d\<in>set ?c3. trail_bounded d"
    using assms(1) respeed_drops_bounded [OF assms(1)] by (auto split: option.splits)
  from assms(2) have "d' \<in> set ?c3 \<or> (\<exists>key k3. d' \<in> set (fst (recharset_drops rnd key k3 ?c3)))"
    by (auto simp: updateConfig_def split_beta Let_def split: option.splits)
  then show ?thesis
  proof
    assume "d' \<in> set ?c3"
    with c3 show ?thesis by blast
  next
    assume "\<exists>key k3. d' \<in> set (fst (recharset_drops rnd key k3 ?c3))"
    then obtain key k3 where "d' \<in> set (fst (recharset_drops rnd key k3 ?c3))" by blast
    with c3 show ?thesis by (rule recharset_drops_bounded)
  qed
qed

lemma run_call_bounded:
  assumes "\<forall>d\<in>set (drops c). trail_bounded d"
    and "run_call rnd call (c, k) = Inr (c', k')"
  shows "\<forall>d\<in>set (drops c'). trail_bounded d"
proof (cases call)
  case (InitDrops w)
  with assms(2) have "initDrops rnd w (c, k) = Inr (c', k')" by simp
  from initDrops_trails [OF this] show ?thesis by blast
next
  case (DrawDrops h anim)
  with assms(2) have "drops c' = fst (drawDrops_loop rnd c h anim k (drops c))"
    by (auto simp: drawDrops_def split_beta Let_def)
  with drawDrops_loop_bounded [OF assms(1)] show ?thesis by metis
next
  case (UpdateConfig config)
  with assms(2) have "c' = fst (updateConfig rnd config (c, k))"
    by (metis run_call.simps(3) Inr_inject fst_conv)
  with updateConfig_bounded [OF assms(1)] show ?thesis by metis
qed

lemma run_calls_bounded:
  assumes "\<forall>d\<in>set (drops c). trail_bounded d"
    and "run_calls rnd calls (c, k) = Inr (c', k')"
  shows "\<forall>d\<in>set (drops c'). trail_bounded d"
  using assms
proof (induction calls arbitrary: c k)
  case Nil
  then show ?case by simp
next
  case (Cons call calls)
  from Cons.prems(2) obtain c1 k1 where step: "run_call rnd call (c, k) = Inr (c1, k1)"
    and rest: "run_calls rnd calls (c1, k1) = Inr (c', k')"
    by (auto split: sum.splits)
  from run_call_bounded [OF Cons.prems(1) step] have "\<forall>d\<in>set (drops c1). trail_bounded d" .
  from Cons.IH [OF this rest] show ?case .
qed

lemma refresh_glyph_pushes:
  assumes "length (trail d) \<le> trailLength d"
    and "updateInterval d \<le> updateCounter d + 1"
  shows "trail (fst (refresh_glyph rnd c k d)) = take (trailLength d) (currentChar d # trail d)"
proof (cases "length (trail d) = trailLength d")
  case True
  then have "butlast (currentChar d # trail d) = take (trailLength d) (currentChar d # trail d)"
    by (simp add: butlast_conv_take)
  with True assms(2) show ?thesis by (simp add: refresh_glyph_def Let_def)
next
  case False
  with assms(1) have "length (trail d) < trailLength d" by simp
  with assms(2) show ?thesis by (simp add: refresh_glyph_def Let_def)
qed

text \<open>
  Claim C6. Start from a new core and make any calls of \<open>initDrops\<close>, \<open>drawDrops\<close>
  (animating or not) and \<open>updateConfig\<close>, in any order and number. In the state reached
  every drop has \<open>trailLength = 8\<close> and a trail no longer than that; and when the glyph
  refresh of an animating tick is due for such a drop, the new trail is the old glyph
  pushed in front of the old trail, cut to 8 entries (the oldest one dropped).
\<close>

theorem trail_never_longer_than_trailLength:
  assumes "run_calls rnd calls (new_MatrixRainCore, k) = Inr (c', k')"
  shows "\<forall>d\<in>set (drops c').
           length (trail d) \<le> trailLength d \<and> trailLength d = 8 \<and>
           (\<forall>k2. updateInterval d \<le> updateCounter d + 1 \<longrightarrow>
              trail (fst (refresh_glyph rnd c' k2 d)) = take 8 (currentChar d # trail d))"
proof
  fix d assume d: "d \<in> set (drops c')"
  have "\<forall>d\<in>set (drops new_MatrixRainCore). trail_bounded d"
    by (simp add: new_MatrixRainCore_def)
  from run_calls_bounded [OF this assms] d have "trail_bounded d" by blast
  then have b: "length (trail d) \<le> trailLength d" "trailLength d = 8"
    by (simp_all add: trail_bounded_def)
  have "trail (fst (refresh_glyph rnd c' k2 d)) = take 8 (currentChar d # trail d)"
    if "updateInterval d \<le> updateCounter d + 1" for k2
    using refresh_glyph_pushes [OF b(1) that, of rnd c' k2] b(2) by simp
  with b show "length (trail d) \<le> trailLength d \<and> trailLength d = 8 \<and>
           (\<forall>k2. updateInterval d \<le> updateCounter d + 1 \<longrightarrow>
              trail (fst (refresh_glyph rnd c' k2 d)) = take 8 (currentChar d # trail d))"
    by blast
qed

lemma select_indices_length: "length (select_indices rnd k n pool) = n"
  by (induction n arbitrary: k pool) (simp_all add: split_beta Let_def)

lemma run_init_draw:
  assumes "columns_of c w = Num (of_int cols)" and "actualColumns_of c w = Num (of_int act)"
    and "cols \<le> 4294967295" and "act \<le> 4294967295" and "0 < act"
  shows "\<exists>c' k'. run_calls rnd [InitDrops w, DrawDrops h anim] (c, k) = Inr (c', k') \<and>
           drops c' \<noteq> []"
proof -
  from initDrops_returns [OF assms(1,2,3,4), of rnd k]
  obtain ds k1 where run: "initDrops rnd w (c, k) = Inr (c\<lparr>drops := ds\<rparr>, k1)"
    and sel: "map xIndex ds = select_indices rnd k (nat act) [0..<nat cols]"
    by blast
  from sel have "length (map xIndex ds) = nat act"
    by (simp only: select_indices_length)
  with assms(5) have "0 < length ds" by simp
  then have "0 < length (fst (drawDrops_loop rnd (c\<lparr>drops := ds\<rparr>) h anim k1 ds))"
    by (simp only: drawDrops_loop_length)
  then have ne: "fst (drawDrops_loop rnd (c\<lparr>drops := ds\<rparr>) h anim k1 ds) \<noteq> []" by simp
  obtain c2 ops k2 where dd: "drawDrops rnd h anim (c\<lparr>drops := ds\<rparr>, k1) = (c2, ops, k2)"
    by (cases "drawDrops rnd h anim (c\<lparr>drops := ds\<rparr>, k1)") auto
  with drawDrops_drops [of rnd h anim "c\<lparr>drops := ds\<rparr>" k1] ne have "drops c2 \<noteq> []" by simp
  moreover from run dd have "run_calls rnd [InitDrops w, DrawDrops h anim] (c, k) = Inr (c2, k2)"
    by simp
  ultimately show ?thesis by blast
qed

lemma default_counts:
  "columns_of new_MatrixRainCore 1000 = Num (of_int 42)"
  "actualColumns_of new_MatrixRainCore 1000 = Num (of_int 42)"
proof -
  have fs: "0 < fontSize new_MatrixRainCore" and d: "0 \<le> density new_MatrixRainCore"
    by (simp_all add: new_MatrixRainCore_def)
  have w: "(0::real) \<le> 1000" by simp
  have r: "fl (density new_MatrixRainCore / 100) < pow2 1024"
    using fl_int [of 1] pow2_1024_above_2 by (simp add: new_MatrixRainCore_def)
  have cb: "\<lceil>fl (1000 / fontSize new_MatrixRainCore)\<rceil> \<le> 4294967295"
    using counts_default_1000(1) by linarith
  have ab: "\<lfloor>fl (of_int \<lceil>fl (1000 / fontSize new_MatrixRainCore)\<rceil> *
        fl (density new_MatrixRainCore / 100))\<rfloor> \<le> 4294967295"
    using counts_default_1000(2) by linarith
  show "columns_of new_MatrixRainCore 1000 = Num (of_int 42)"
    using columns_finite [OF fs w cb] unfolding counts_default_1000(1) .
  show "actualColumns_of new_MatrixRainCore 1000 = Num (of_int 42)"
    using actualColumns_finite [OF fs w d cb r ab] unfolding counts_default_1000(2) by simp
qed

theorem trail_never_longer_than_trailLength_witness:
  "run_calls rnd_zero [InitDrops 1000, DrawDrops 800 True] (new_MatrixRainCore, 0) =
     Inr (projr (run_calls rnd_zero [InitDrops 1000, DrawDrops 800 True]
                  (new_MatrixRainCore, 0))) \<and>
   drops (fst (projr (run_calls rnd_zero [InitDrops 1000, DrawDrops 800 True]
                  (new_MatrixRainCore, 0)))) \<noteq> [] \<and>
   length (trail (hd (drops (fst (projr (run_calls rnd_zero
       [InitDrops 1000, DrawDrops 800 True] (new_MatrixRainCore, 0))))))) \<le> 8"
proof -
  from run_init_draw [OF default_counts, of rnd_zero 800 True 0]
  obtain c' k' where run: "run_calls rnd_zero [InitDrops 1000, DrawDrops 800 True]
       (new_MatrixRainCore, 0) = Inr (c', k')"
    and ne: "drops c' \<noteq> []"
    by auto
  from ne have "hd (drops c') \<in> set (drops c')" by simp
  with trail_never_longer_than_trailLength [OF run]
  have "length (trail (hd (drops c'))) \<le> 8" by auto
  with run ne show ?thesis by simp
qed

end
